theory Spec2Isabelle
  imports Complex_Main
begin

section \<open>Tensors, shapes and errors\<close>

text \<open>
  The kernel of \<^verbatim>\<open>exponentiated_quadratic.py\<close> works on TensorFlow tensors. A tensor is
  modelled by its (fully known) shape and its element at each index; an index is the list
  of coordinates, outermost axis first. Elements are real numbers: rounding, overflow and
  the IEEE special values of the floating-point types are not part of the model.

  Failures are values. \<open>AttributeError\<close> and \<open>ValueError\<close> are the Python exceptions of
  reading \<^verbatim>\<open>None.shape\<close> and of converting \<^verbatim>\<open>None\<close> to a tensor; \<open>ValidationError\<close> is a
  failed \<^verbatim>\<open>tf.assert_positive\<close>; \<open>ShapeError\<close> is what a TensorFlow operation raises on
  shapes that do not broadcast or on a reduction over axes that do not exist.
  \<open>NonFinite\<close> is no exception: it records that a division met a zero divisor, where the
  floating-point result holds an infinity or a NaN and so has left the real numbers.
\<close>

datatype error = AttributeError | ValueError | ValidationError | ShapeError | NonFinite

record tensor =
  shape :: "nat list"
  elems :: "nat list \<Rightarrow> real"

definition rbind :: "error + 'a \<Rightarrow> ('a \<Rightarrow> error + 'b) \<Rightarrow> error + 'b" where
  "rbind m f = (case m of Inl e \<Rightarrow> Inl e | Inr v \<Rightarrow> f v)"

text \<open>All indices of a shape, in row-major order.\<close>

fun indices :: "nat list \<Rightarrow> nat list list" where
  "indices [] = [[]]"
| "indices (d # ds) = concat (map (\<lambda>i. map ((#) i) (indices ds)) [0..<d])"

text \<open>A scalar tensor (shape \<open>()\<close>) and a vector, for concrete inputs.\<close>

definition scalar :: "real \<Rightarrow> tensor" where
  "scalar c = \<lparr>shape = [], elems = (\<lambda>i. c)\<rparr>"

definition vector :: "real list \<Rightarrow> tensor" where
  "vector xs = \<lparr>shape = [length xs], elems = (\<lambda>i. case i of [] \<Rightarrow> 0 | j # _ \<Rightarrow> xs ! j)\<rparr>"

section \<open>Shape algebra of the tensor library\<close>

text \<open>
  Broadcasting of two dimensions, and of two shapes aligned from the right (the recursion
  runs over the reversed shapes).
\<close>

definition bdim :: "nat \<Rightarrow> nat \<Rightarrow> nat option" where
  "bdim x y = (if x = y then Some x else if x = 1 then Some y
               else if y = 1 then Some x else None)"

fun bcast_rev :: "nat list \<Rightarrow> nat list \<Rightarrow> nat list option" where
  "bcast_rev [] ys = Some ys"
| "bcast_rev (x # xs) [] = Some (x # xs)"
| "bcast_rev (x # xs) (y # ys) =
     (case bdim x y of None \<Rightarrow> None
      | Some d \<Rightarrow> map_option ((#) d) (bcast_rev xs ys))"

definition broadcast_shape :: "nat list \<Rightarrow> nat list \<Rightarrow> nat list option" where
  "broadcast_shape a b = map_option rev (bcast_rev (rev a) (rev b))"

definition broadcast_static_shape :: "nat list \<Rightarrow> nat list \<Rightarrow> error + nat list" where
  "broadcast_static_shape a b =
     (case broadcast_shape a b of None \<Rightarrow> Inl ShapeError | Some s \<Rightarrow> Inr s)"

definition broadcast_dynamic_shape :: "nat list \<Rightarrow> nat list \<Rightarrow> error + nat list" where
  "broadcast_dynamic_shape a b =
     (case broadcast_shape a b of None \<Rightarrow> Inl ShapeError | Some s \<Rightarrow> Inr s)"

text \<open>\<^verbatim>\<open>tf.shape\<close> converts its argument to a tensor first, which fails on \<^verbatim>\<open>None\<close>.\<close>

definition tf_shape :: "tensor option \<Rightarrow> error + nat list" where
  "tf_shape x = (case x of None \<Rightarrow> Inl ValueError | Some t \<Rightarrow> Inr (shape t))"

section \<open>Elementwise operations under broadcasting\<close>

text \<open>
  Position \<open>i\<close> of a broadcast result reads a tensor of shape \<open>s\<close> at \<open>bidx s i\<close>: the
  leading coordinates that \<open>s\<close> does not have are dropped, and the coordinate along a
  dimension of size 1 is 0. \<open>bget t i\<close> is the element of \<open>t\<close> read there.
\<close>

fun bidx_rev :: "nat list \<Rightarrow> nat list \<Rightarrow> nat list" where
  "bidx_rev (d # ds) (j # js) = (if d = 1 then 0 else j) # bidx_rev ds js"
| "bidx_rev _ _ = []"

definition bidx :: "nat list \<Rightarrow> nat list \<Rightarrow> nat list" where
  "bidx s i = rev (bidx_rev (rev s) (rev i))"

definition bget :: "tensor \<Rightarrow> nat list \<Rightarrow> real" where
  "bget t i = elems t (bidx (shape t) i)"

text \<open>
  The operations of the tensor library that the kernel uses: \<^verbatim>\<open>tf.squared_difference\<close>,
  the product, the quotient and the sum of two tensors (all four broadcast their
  arguments and fail on shapes that do not broadcast), the square \<^verbatim>\<open>**2\<close>, the product
  with a Python number and \<^verbatim>\<open>tf.exp\<close>. A quotient with a zero divisor at some position of
  the result is \<open>NonFinite\<close>.
\<close>

definition broadcast_op :: "(real \<Rightarrow> real \<Rightarrow> real) \<Rightarrow> tensor \<Rightarrow> tensor \<Rightarrow> error + tensor" where
  "broadcast_op f a b =
     (case broadcast_shape (shape a) (shape b) of
        None \<Rightarrow> Inl ShapeError
      | Some s \<Rightarrow> Inr \<lparr>shape = s, elems = (\<lambda>i. f (bget a i) (bget b i))\<rparr>)"

definition squared_difference :: "tensor \<Rightarrow> tensor \<Rightarrow> error + tensor" where
  "squared_difference = broadcast_op (\<lambda>x y. (x - y) * (x - y))"

definition multiply :: "tensor \<Rightarrow> tensor \<Rightarrow> error + tensor" where
  "multiply = broadcast_op (*)"

definition tf_add :: "tensor \<Rightarrow> tensor \<Rightarrow> error + tensor" where
  "tf_add = broadcast_op (+)"

definition truediv :: "tensor \<Rightarrow> tensor \<Rightarrow> error + tensor" where
  "truediv a b =
     rbind (broadcast_op (/) a b) (\<lambda>r.
       if list_ex (\<lambda>i. bget b i = 0) (indices (shape r)) then Inl NonFinite else Inr r)"

definition square :: "tensor \<Rightarrow> tensor" where
  "square t = \<lparr>shape = shape t, elems = (\<lambda>i. (elems t i)\<^sup>2)\<rparr>"

definition scalar_mul :: "real \<Rightarrow> tensor \<Rightarrow> tensor" where
  "scalar_mul c t = \<lparr>shape = shape t, elems = (\<lambda>i. c * elems t i)\<rparr>"

definition tf_exp :: "tensor \<Rightarrow> tensor" where
  "tf_exp t = \<lparr>shape = shape t, elems = (\<lambda>i. exp (elems t i))\<rparr>"

text \<open>
  \<^verbatim>\<open>tf.expand_dims(x, -m)\<close>: a new axis of size 1 that is the \<open>m\<close>-th axis from the right of
  the result.
\<close>

definition expand_dims :: "tensor \<Rightarrow> nat \<Rightarrow> error + tensor" where
  "expand_dims x m =
     (if 1 \<le> m \<and> m \<le> length (shape x) + 1
      then let q = length (shape x) + 1 - m in
           Inr \<lparr>shape = take q (shape x) @ 1 # drop q (shape x),
                elems = (\<lambda>i. elems x (take q i @ drop (Suc q) i))\<rparr>
      else Inl ShapeError)"

section \<open>Helpers of the kernel package\<close>

text \<open>
  Modelled from the spec: \<^verbatim>\<open>util.sum_rightmost_ndims_preserving_shape\<close>, which is not among
  the sources. It sums the trailing \<open>n\<close> dimensions of a tensor and leaves the leading
  dimensions unchanged in order and size; for \<open>n = 0\<close> nothing is summed. A tensor of rank
  below \<open>n\<close> has no such dimensions, and the reduction fails.
\<close>

definition sum_rightmost_ndims_preserving_shape :: "tensor \<Rightarrow> nat \<Rightarrow> error + tensor" where
  "sum_rightmost_ndims_preserving_shape x n =
     (if n \<le> length (shape x)
      then Inr \<lparr>shape = take (length (shape x) - n) (shape x),
                elems = (\<lambda>i. \<Sum>j\<leftarrow>indices (drop (length (shape x) - n) (shape x)).
                                elems x (i @ j))\<rparr>
      else Inl ShapeError)"

text \<open>
  Modelled from the spec: \<^verbatim>\<open>util.pad_shape_right_with_ones\<close>, which is not among the
  sources. It appends \<open>n\<close> trailing dimensions of size 1 to the shape of a tensor; the
  elements stay. With \<open>n = 0\<close> the tensor is returned as it is.
\<close>

definition pad_shape_right_with_ones :: "tensor \<Rightarrow> nat \<Rightarrow> tensor" where
  "pad_shape_right_with_ones x n =
     (if n = 0 then x
      else \<lparr>shape = shape x @ replicate n 1,
            elems = (\<lambda>i. elems x (take (length (shape x)) i))\<rparr>)"

section \<open>Parameter validation and construction\<close>

definition assert_positive :: "tensor \<Rightarrow> error + unit" where
  "assert_positive t =
     (if list_all (\<lambda>i. 0 < elems t i) (indices (shape t)) then Inr ()
      else Inl ValidationError)"

definition identity :: "tensor \<Rightarrow> tensor" where
  "identity t = t"

text \<open>
  \<^verbatim>\<open>_validate_arg_if_not_none\<close>: the assertion is called only under \<^verbatim>\<open>validate_args\<close>,
  and the value is handed on behind it.
\<close>

definition validate_arg_if_not_none ::
  "tensor option \<Rightarrow> (tensor \<Rightarrow> error + unit) \<Rightarrow> bool \<Rightarrow> error + tensor option" where
  "validate_arg_if_not_none arg assertion validate_args =
     (case arg of
        None \<Rightarrow> Inr None
      | Some t \<Rightarrow>
          rbind (if validate_args then assertion t else Inr ())
            (\<lambda>_. Inr (Some (identity t))))"

text \<open>
  Every tensor of the model has real elements, that is one floating-point element type,
  so \<^verbatim>\<open>tf.assert_same_float_dtype\<close> has nothing to reject; it skips absent entries.
\<close>

definition assert_same_float_dtype :: "tensor option list \<Rightarrow> error + unit" where
  "assert_same_float_dtype ts = Inr ()"

text \<open>
  A kernel holds the two validated parameters, either of which may be absent, and the
  number of feature dimensions that the constructor of the base class stores.
\<close>

record kernel =
  amplitude :: "tensor option"
  length_scale :: "tensor option"
  feature_ndims :: nat

text \<open>\<^verbatim>\<open>ExponentiatedQuadratic.__init__\<close>; the name has no effect on the result.\<close>

definition init :: "tensor option \<Rightarrow> tensor option \<Rightarrow> nat \<Rightarrow> bool \<Rightarrow> error + kernel" where
  "init amp ls ndims validate_args =
     rbind (validate_arg_if_not_none amp assert_positive validate_args) (\<lambda>a.
     rbind (validate_arg_if_not_none ls assert_positive validate_args) (\<lambda>l.
     rbind (assert_same_float_dtype [a, l]) (\<lambda>_.
     Inr \<lparr>amplitude = a, length_scale = l, feature_ndims = ndims\<rparr>)))"

text \<open>
  Whether a parameter is present with an element that is not positive.
\<close>

definition has_nonpositive :: "tensor option \<Rightarrow> bool" where
  "has_nonpositive p =
     (case p of None \<Rightarrow> False
      | Some t \<Rightarrow> list_ex (\<lambda>i. elems t i \<le> 0) (indices (shape t)))"

section \<open>The methods of the kernel\<close>

text \<open>
  \<^verbatim>\<open>_batch_shape\<close> reads \<^verbatim>\<open>.shape\<close> of both parameters, the amplitude first;
  \<^verbatim>\<open>_batch_shape_tensor\<close> takes \<^verbatim>\<open>tf.shape\<close> of both. Neither tests for \<^verbatim>\<open>None\<close>.
\<close>

definition batch_shape :: "kernel \<Rightarrow> error + nat list" where
  "batch_shape k =
     (case amplitude k of
        None \<Rightarrow> Inl AttributeError
      | Some a \<Rightarrow>
          (case length_scale k of
             None \<Rightarrow> Inl AttributeError
           | Some l \<Rightarrow> broadcast_static_shape (shape a) (shape l)))"

definition batch_shape_tensor :: "kernel \<Rightarrow> error + nat list" where
  "batch_shape_tensor k =
     rbind (tf_shape (amplitude k)) (\<lambda>sa.
     rbind (tf_shape (length_scale k)) (\<lambda>sl.
     broadcast_dynamic_shape sa sl))"

text \<open>
  \<^verbatim>\<open>_apply\<close>: minus half the squared differences summed over the feature dimensions,
  divided by the squared length scale if there is one, exponentiated, and multiplied by the
  amplitude if there is one; both parameters are padded by \<^verbatim>\<open>param_expansion_ndims\<close>.
\<close>

definition apply_impl :: "kernel \<Rightarrow> tensor \<Rightarrow> tensor \<Rightarrow> nat \<Rightarrow> error + tensor" where
  "apply_impl k x1 x2 param_expansion_ndims =
     rbind (squared_difference x1 x2) (\<lambda>sd.
     rbind (sum_rightmost_ndims_preserving_shape sd (feature_ndims k)) (\<lambda>s.
     rbind (case length_scale k of
              None \<Rightarrow> Inr (scalar_mul (- (1 / 2)) s)
            | Some l \<Rightarrow>
                truediv (scalar_mul (- (1 / 2)) s)
                  (square (pad_shape_right_with_ones l param_expansion_ndims))) (\<lambda>exponent.
     let exponential = tf_exp exponent in
     (case amplitude k of
        Some a \<Rightarrow> multiply (pad_shape_right_with_ones a param_expansion_ndims) exponential
      | None \<Rightarrow> Inr exponential))))"

text \<open>
  Modelled from the spec: the public \<^verbatim>\<open>apply\<close> of the kernel base class, which is not
  among the sources; it evaluates \<^verbatim>\<open>_apply\<close> with no extra trailing dimensions.
\<close>

definition kernel_apply :: "kernel \<Rightarrow> tensor \<Rightarrow> tensor \<Rightarrow> error + tensor" where
  "kernel_apply k x1 x2 = apply_impl k x1 x2 0"

text \<open>
  Modelled from the spec: \<^verbatim>\<open>matrix\<close> of the kernel base class, which is not among the
  sources. The axis before the feature dimensions is the example axis of each input; the
  two inputs are expanded to the grid of all pairs (the examples of \<open>x1\<close> along the first
  new axis, those of \<open>x2\<close> along the second), and the formula of \<^verbatim>\<open>_apply\<close> runs with the
  parameters padded by the two axes introduced.
\<close>

definition matrix :: "kernel \<Rightarrow> tensor \<Rightarrow> tensor \<Rightarrow> error + tensor" where
  "matrix k x1 x2 =
     rbind (expand_dims x1 (feature_ndims k + 1)) (\<lambda>y1.
     rbind (expand_dims x2 (feature_ndims k + 2)) (\<lambda>y2.
     apply_impl k y1 y2 2))"

section \<open>The formula of the specification\<close>

definition batch_dims :: "nat \<Rightarrow> nat list \<Rightarrow> nat list" where
  "batch_dims n s = take (length s - n) s"

definition feature_dims :: "nat \<Rightarrow> nat list \<Rightarrow> nat list" where
  "feature_dims n s = drop (length s - n) s"

text \<open>
  The summed squared difference at position \<open>i\<close> of the result: the sum, over the trailing
  \<open>n\<close> dimensions of the broadcast input shape \<open>sd\<close>, of the squared coordinate differences.
\<close>

definition sq_dist :: "nat \<Rightarrow> nat list \<Rightarrow> tensor \<Rightarrow> tensor \<Rightarrow> nat list \<Rightarrow> real" where
  "sq_dist n sd x1 x2 i =
     (\<Sum>j\<leftarrow>indices (feature_dims n sd).
        (bget x1 (bidx (batch_dims n sd) i @ j) - bget x2 (bidx (batch_dims n sd) i @ j))\<^sup>2)"

definition spec_value :: "kernel \<Rightarrow> nat \<Rightarrow> tensor \<Rightarrow> tensor \<Rightarrow> nat list \<Rightarrow> nat list \<Rightarrow> real" where
  "spec_value k p x1 x2 sd i =
     (let S = sq_dist (feature_ndims k) sd x1 x2 i;
          e = (case length_scale k of
                 None \<Rightarrow> - (1 / 2) * S
               | Some l \<Rightarrow> - (1 / 2) * S / (bget (pad_shape_right_with_ones l p) i)\<^sup>2)
      in case amplitude k of
           None \<Rightarrow> exp e
         | Some a \<Rightarrow> bget (pad_shape_right_with_ones a p) i * exp e)"

text \<open>
  The shape of the exponent and of the result for inputs that broadcast to \<open>sd\<close>, and
  whether the division meets a zero of the length scale.
\<close>

definition exponent_shape :: "kernel \<Rightarrow> nat \<Rightarrow> nat list \<Rightarrow> nat list option" where
  "exponent_shape k p sd =
     (case length_scale k of
        None \<Rightarrow> Some (batch_dims (feature_ndims k) sd)
      | Some l \<Rightarrow>
          broadcast_shape (batch_dims (feature_ndims k) sd)
            (shape (pad_shape_right_with_ones l p)))"

definition result_shape :: "kernel \<Rightarrow> nat \<Rightarrow> nat list \<Rightarrow> nat list option" where
  "result_shape k p sd =
     (case exponent_shape k p sd of
        None \<Rightarrow> None
      | Some e \<Rightarrow>
          (case amplitude k of
             None \<Rightarrow> Some e
           | Some a \<Rightarrow> broadcast_shape (shape (pad_shape_right_with_ones a p)) e))"

definition zero_divisor :: "kernel \<Rightarrow> nat \<Rightarrow> nat list \<Rightarrow> bool" where
  "zero_divisor k p e =
     (case length_scale k of
        None \<Rightarrow> False
      | Some l \<Rightarrow> list_ex (\<lambda>i. bget (pad_shape_right_with_ones l p) i = 0) (indices e))"

text \<open>The Euclidean distance between the two feature vectors behind position \<open>i\<close>.\<close>

definition euclid_dist :: "nat \<Rightarrow> nat list \<Rightarrow> tensor \<Rightarrow> tensor \<Rightarrow> nat list \<Rightarrow> real" where
  "euclid_dist n sd x1 x2 i = sqrt (sq_dist n sd x1 x2 i)"

section \<open>Notions of the statements\<close>

text \<open>
  Two results are the same when both fail alike or both are tensors of one shape with
  equal elements at every index of that shape.
\<close>

definition tensor_eq :: "tensor \<Rightarrow> tensor \<Rightarrow> bool" where
  "tensor_eq a b \<longleftrightarrow>
     shape a = shape b \<and> list_all (\<lambda>i. elems a i = elems b i) (indices (shape a))"

definition result_eq :: "error + tensor \<Rightarrow> error + tensor \<Rightarrow> bool" where
  "result_eq ra rb =
     (case ra of
        Inl e \<Rightarrow> rb = Inl e
      | Inr a \<Rightarrow> (case rb of Inl _ \<Rightarrow> False | Inr b \<Rightarrow> tensor_eq a b))"

text \<open>Constructing a kernel and applying it.\<close>

definition apply_constructed ::
  "tensor option \<Rightarrow> tensor option \<Rightarrow> nat \<Rightarrow> bool \<Rightarrow> tensor \<Rightarrow> tensor \<Rightarrow> error + tensor" where
  "apply_constructed amp ls n v x1 x2 = rbind (init amp ls n v) (\<lambda>k. kernel_apply k x1 x2)"

text \<open>The two stages of \<^verbatim>\<open>_apply\<close>, named for the proofs: the exponent and its scaling.\<close>

definition exponent_of :: "tensor option \<Rightarrow> nat \<Rightarrow> tensor \<Rightarrow> tensor \<Rightarrow> nat \<Rightarrow> error + tensor" where
  "exponent_of ls n x1 x2 p =
     rbind (squared_difference x1 x2) (\<lambda>sd.
     rbind (sum_rightmost_ndims_preserving_shape sd n) (\<lambda>s.
       case ls of
         None \<Rightarrow> Inr (scalar_mul (- (1 / 2)) s)
       | Some l \<Rightarrow>
           truediv (scalar_mul (- (1 / 2)) s) (square (pad_shape_right_with_ones l p))))"

definition scale_by :: "tensor option \<Rightarrow> nat \<Rightarrow> tensor \<Rightarrow> error + tensor" where
  "scale_by amp p e =
     (case amp of
        Some a \<Rightarrow> multiply (pad_shape_right_with_ones a p) (tf_exp e)
      | None \<Rightarrow> Inr (tf_exp e))"

text \<open>
  The tensor of the same shape that holds at every index the element read there under
  broadcasting; it agrees with the tensor on all indices of its shape.
\<close>

definition renorm :: "tensor \<Rightarrow> tensor" where
  "renorm t = \<lparr>shape = shape t, elems = (\<lambda>i. bget t i)\<rparr>"

text \<open>The example \<open>x[i]\<close> of a batch, for \<open>i\<close> below the size of the first axis.\<close>

definition row :: "tensor \<Rightarrow> nat \<Rightarrow> tensor" where
  "row t i = \<lparr>shape = tl (shape t), elems = (\<lambda>j. elems t (i # j))\<rparr>"

text \<open>
  A parameter that is absent or a scalar, and the two inputs of \<open>matrix\<close> for shapes
  \<open>[m, D]\<close> and \<open>[n, D]\<close> expanded to the grid of all pairs.
\<close>

definition scalar_or_absent :: "tensor option \<Rightarrow> bool" where
  "scalar_or_absent p = (case p of None \<Rightarrow> True | Some t \<Rightarrow> shape t = [])"

definition grid1 :: "tensor \<Rightarrow> nat \<Rightarrow> nat \<Rightarrow> tensor" where
  "grid1 x m D = \<lparr>shape = [m, 1, D], elems = (\<lambda>i. elems x (take 1 i @ drop 2 i))\<rparr>"

definition grid2 :: "tensor \<Rightarrow> nat \<Rightarrow> nat \<Rightarrow> tensor" where
  "grid2 x n D = \<lparr>shape = [1, n, D], elems = (\<lambda>i. elems x (drop 1 i))\<rparr>"

text \<open>Two small batches: \<open>[[0], [1]]\<close> and \<open>[[0], [1], [2]]\<close>.\<close>

definition column :: "nat \<Rightarrow> tensor" where
  "column m = \<lparr>shape = [m, 1], elems = (\<lambda>i. case i of [] \<Rightarrow> 0 | a # _ \<Rightarrow> real a)\<rparr>"

section \<open>Construction and validation\<close>

lemma init_unchecked:
  "init a l n False = Inr \<lparr>amplitude = a, length_scale = l, feature_ndims = n\<rparr>"
  by (simp add: init_def validate_arg_if_not_none_def rbind_def identity_def
      assert_same_float_dtype_def split: option.splits)

lemma assert_positive_fails:
  "\<exists>i\<in>set (indices (shape t)). elems t i \<le> 0 \<Longrightarrow> assert_positive t = Inl ValidationError"
  by (auto simp: assert_positive_def list_all_iff not_less)

lemma assert_positive_passes:
  "\<forall>i\<in>set (indices (shape t)). 0 < elems t i \<Longrightarrow> assert_positive t = Inr ()"
  by (simp add: assert_positive_def list_all_iff)

lemma validate_nonpositive:
  "has_nonpositive p \<Longrightarrow> validate_arg_if_not_none p assert_positive True = Inl ValidationError"
  by (auto simp: has_nonpositive_def validate_arg_if_not_none_def rbind_def list_ex_iff
      assert_positive_fails split: option.splits)

lemma validate_positive:
  "\<not> has_nonpositive p \<Longrightarrow> validate_arg_if_not_none p assert_positive True = Inr p"
  by (auto simp: has_nonpositive_def validate_arg_if_not_none_def rbind_def list_ex_iff
      identity_def assert_positive_def list_all_iff not_le split: option.splits)

text \<open>
  Claim C3. Validation is gated by \<open>validate_args\<close>. Without it the assertion is never
  consulted, whatever it is, and construction returns both parameters unchanged, also
  non-positive ones. With it, a present parameter holding a non-positive element makes
  construction fail with \<open>ValidationError\<close>, so no kernel exists that an evaluation could
  use; and parameters that are absent or positive throughout are returned unchanged.
\<close>

theorem validation_gated_by_validate_args:
  "(\<forall>assertion. validate_arg_if_not_none p assertion False = Inr p) \<and>
   init a l n False = Inr \<lparr>amplitude = a, length_scale = l, feature_ndims = n\<rparr> \<and>
   (has_nonpositive a \<or> has_nonpositive l \<longrightarrow> init a l n True = Inl ValidationError) \<and>
   (\<not> has_nonpositive a \<and> \<not> has_nonpositive l \<longrightarrow>
      init a l n True = Inr \<lparr>amplitude = a, length_scale = l, feature_ndims = n\<rparr>)"
proof (intro conjI allI impI)
  fix assertion
  show "validate_arg_if_not_none p assertion False = Inr p"
    by (simp add: validate_arg_if_not_none_def rbind_def identity_def split: option.splits)
next
  show "init a l n False = Inr \<lparr>amplitude = a, length_scale = l, feature_ndims = n\<rparr>"
    by (rule init_unchecked)
next
  assume bad: "has_nonpositive a \<or> has_nonpositive l"
  show "init a l n True = Inl ValidationError"
  proof (cases "has_nonpositive a")
    case True
    then show ?thesis
      by (simp add: init_def validate_nonpositive rbind_def)
  next
    case False
    with bad have "has_nonpositive l" by simp
    with False show ?thesis
      by (simp add: init_def validate_nonpositive validate_positive rbind_def)
  qed
next
  assume "\<not> has_nonpositive a \<and> \<not> has_nonpositive l"
  then show "init a l n True = Inr \<lparr>amplitude = a, length_scale = l, feature_ndims = n\<rparr>"
    by (simp add: init_def validate_positive rbind_def assert_same_float_dtype_def)
qed

theorem validation_gated_by_validate_args_witness:
  "has_nonpositive (Some (scalar (-1))) \<and>
   init (Some (scalar 2)) (Some (scalar (-1))) 1 True = Inl ValidationError \<and>
   init (Some (scalar 2)) (Some (scalar (-1))) 1 False =
     Inr \<lparr>amplitude = Some (scalar 2), length_scale = Some (scalar (-1)), feature_ndims = 1\<rparr> \<and>
   \<not> has_nonpositive (Some (scalar 2)) \<and>
   init (Some (scalar 2)) (Some (scalar 2)) 1 True =
     Inr \<lparr>amplitude = Some (scalar 2), length_scale = Some (scalar 2), feature_ndims = 1\<rparr>"
proof -
  have bad: "has_nonpositive (Some (scalar (-1)))"
    by (simp add: has_nonpositive_def scalar_def)
  have good: "\<not> has_nonpositive (Some (scalar 2))"
    by (simp add: has_nonpositive_def scalar_def)
  show ?thesis
    using bad good
      validation_gated_by_validate_args [of None "Some (scalar 2)" "Some (scalar (-1))" 1]
      validation_gated_by_validate_args [of None "Some (scalar 2)" "Some (scalar 2)" 1]
    by simp
qed

section \<open>Batch shape with an absent parameter\<close>

text \<open>
  Claim C2. The batch shape of a kernel with one absent parameter is specified as the
  shape of the other, the absent one counting as shape \<open>()\<close>. The two methods do not get
  there: for a kernel constructed with no amplitude and a length scale of shape \<open>[3]\<close>,
  \<^verbatim>\<open>_batch_shape\<close> fails on \<^verbatim>\<open>None.shape\<close> and \<^verbatim>\<open>_batch_shape_tensor\<close> on
  \<^verbatim>\<open>tf.shape(None)\<close>, where the broadcast of \<open>()\<close> and \<open>[3]\<close> is \<open>[3]\<close>.
\<close>

theorem batch_shape_absent_amplitude_fails:
  "init None (Some (vector [1, 2, 3])) 1 False =
     Inr \<lparr>amplitude = None, length_scale = Some (vector [1, 2, 3]), feature_ndims = 1\<rparr> \<and>
   batch_shape \<lparr>amplitude = None, length_scale = Some (vector [1, 2, 3]), feature_ndims = 1\<rparr>
     = Inl AttributeError \<and>
   batch_shape_tensor
     \<lparr>amplitude = None, length_scale = Some (vector [1, 2, 3]), feature_ndims = 1\<rparr>
     = Inl ValueError \<and>
   broadcast_shape [] (shape (vector [1, 2, 3])) = Some [3]"
  by (simp add: init_unchecked batch_shape_def batch_shape_tensor_def tf_shape_def rbind_def
      broadcast_shape_def vector_def)

section \<open>Properties of broadcasting\<close>

lemma indices_iff: "i \<in> set (indices s) \<longleftrightarrow> list_all2 (<) i s"
proof (induction s arbitrary: i)
  case Nil
  show ?case by simp
next
  case (Cons d ds)
  have "i \<in> set (indices (d # ds)) \<longleftrightarrow> (\<exists>k<d. \<exists>i'\<in>set (indices ds). i = k # i')"
    by auto
  also have "\<dots> \<longleftrightarrow> (\<exists>k i'. i = k # i' \<and> k < d \<and> list_all2 (<) i' ds)"
    by (auto simp: Cons.IH)
  also have "\<dots> \<longleftrightarrow> list_all2 (<) i (d # ds)"
    by (auto simp: list_all2_Cons2)
  finally show ?case .
qed

lemma bidx_rev_id: "list_all2 (<) i s \<Longrightarrow> bidx_rev s i = i"
  by (induction s i rule: bidx_rev.induct) auto

lemma bidx_rev_idem: "bidx_rev s (bidx_rev s m) = bidx_rev s m"
  by (induction s m rule: bidx_rev.induct) auto

lemma bdim_comm: "bdim x y = bdim y x"
  by (auto simp: bdim_def)

lemma bcast_rev_Nil2: "bcast_rev xs [] = Some xs"
  by (cases xs) auto

lemma bcast_rev_comm: "bcast_rev a b = bcast_rev b a"
proof (induction a b rule: bcast_rev.induct)
  case (1 ys)
  then show ?case by (simp add: bcast_rev_Nil2)
next
  case (2 x xs)
  then show ?case by simp
next
  case (3 x xs y ys)
  then show ?case
    by (cases "bdim x y") (simp_all add: bdim_comm [of y x])
qed

lemma broadcast_shape_comm: "broadcast_shape a b = broadcast_shape b a"
  by (simp add: broadcast_shape_def bcast_rev_comm [of "rev a"])

lemma bcast_rev_valid1:
  "bcast_rev a b = Some r \<Longrightarrow> list_all2 (<) i r \<Longrightarrow> list_all2 (<) (bidx_rev a i) a"
proof (induction a b arbitrary: r i rule: bcast_rev.induct)
  case (1 ys)
  then show ?case by simp
next
  case (2 x xs)
  then show ?case by (simp add: bidx_rev_id)
next
  case (3 x xs y ys)
  from "3.prems"(1) obtain d r' where
    d: "bdim x y = Some d" and r': "bcast_rev xs ys = Some r'" and r: "r = d # r'"
    by (auto split: option.splits)
  from "3.prems"(2) r obtain j js where
    i: "i = j # js" and j: "j < d" and js: "list_all2 (<) js r'"
    by (auto simp: list_all2_Cons2)
  have "list_all2 (<) (bidx_rev xs js) xs"
    using "3.IH" [OF d r' js] .
  moreover have "(if x = 1 then 0 else j) < x"
    using d j by (auto simp: bdim_def split: if_splits)
  ultimately show ?case
    by (simp add: i)
qed

lemma bidx_rev_comp1:
  "bcast_rev a b = Some r \<Longrightarrow> bidx_rev a (bidx_rev r m) = bidx_rev a m"
proof (induction a b arbitrary: r m rule: bcast_rev.induct)
  case (1 ys)
  then show ?case by simp
next
  case (2 x xs)
  then show ?case by (simp add: bidx_rev_idem)
next
  case (3 x xs y ys)
  from "3.prems" obtain d r' where
    d: "bdim x y = Some d" and r': "bcast_rev xs ys = Some r'" and r: "r = d # r'"
    by (auto split: option.splits)
  show ?case
  proof (cases m)
    case Nil
    then show ?thesis by simp
  next
    case (Cons j js)
    have "bidx_rev xs (bidx_rev r' js) = bidx_rev xs js"
      using "3.IH" [OF d r'] .
    moreover have "x \<noteq> 1 \<Longrightarrow> d \<noteq> 1"
      using d by (auto simp: bdim_def split: if_splits)
    ultimately show ?thesis
      by (auto simp: Cons r)
  qed
qed

lemma bidx_id: "i \<in> set (indices s) \<Longrightarrow> bidx s i = i"
  by (simp add: indices_iff bidx_def bidx_rev_id)

lemma bidx_idem: "bidx s (bidx s m) = bidx s m"
  by (simp add: bidx_def bidx_rev_idem)

lemma bidx_Nil: "bidx [] i = []"
  by (simp add: bidx_def)

lemma bidx_valid1:
  assumes "broadcast_shape a b = Some r" and "i \<in> set (indices r)"
  shows "bidx a i \<in> set (indices a)"
proof -
  from assms(1) obtain r0 where r0: "bcast_rev (rev a) (rev b) = Some r0" and r: "r = rev r0"
    by (auto simp: broadcast_shape_def)
  from assms(2) r have "list_all2 (<) (rev i) r0"
    by (simp add: indices_iff list_all2_rev1)
  from bcast_rev_valid1 [OF r0 this] show ?thesis
    by (simp add: indices_iff bidx_def list_all2_rev1)
qed

lemma bidx_valid2:
  "broadcast_shape a b = Some r \<Longrightarrow> i \<in> set (indices r) \<Longrightarrow> bidx b i \<in> set (indices b)"
  using bidx_valid1 [of b a r i] by (simp add: broadcast_shape_comm [of b a])

lemma bidx_comp1:
  assumes "broadcast_shape a b = Some r"
  shows "bidx a (bidx r m) = bidx a m"
proof -
  from assms obtain r0 where r0: "bcast_rev (rev a) (rev b) = Some r0" and r: "r = rev r0"
    by (auto simp: broadcast_shape_def)
  show ?thesis
    by (simp add: bidx_def r bidx_rev_comp1 [OF r0])
qed

lemma bidx_comp2:
  "broadcast_shape a b = Some r \<Longrightarrow> bidx b (bidx r m) = bidx b m"
  using bidx_comp1 [of b a r m] by (simp add: broadcast_shape_comm [of b a])

lemma broadcast_shape_Nil1: "broadcast_shape [] s = Some s"
  by (simp add: broadcast_shape_def)

lemma broadcast_shape_Nil2: "broadcast_shape s [] = Some s"
  by (simp add: broadcast_shape_def bcast_rev_Nil2)

lemma bget_comp1:
  "broadcast_shape (shape t) b = Some r \<Longrightarrow> bget t (bidx r m) = bget t m"
  by (simp add: bget_def bidx_comp1)

lemma bget_comp2:
  "broadcast_shape a (shape t) = Some r \<Longrightarrow> bget t (bidx r m) = bget t m"
  by (simp add: bget_def bidx_comp2)

lemma pad_valid:
  assumes "i \<in> set (indices (shape (pad_shape_right_with_ones x n)))"
  shows "take (length (shape x)) i \<in> set (indices (shape x))"
proof (cases "n = 0")
  case True
  with assms have "list_all2 (<) i (shape x)"
    by (simp add: pad_shape_right_with_ones_def indices_iff)
  then show ?thesis
    by (simp add: indices_iff list_all2_lengthD)
next
  case False
  with assms have "list_all2 (<) i (shape x @ replicate n 1)"
    by (simp add: pad_shape_right_with_ones_def indices_iff)
  then have "list_all2 (<) (take (length (shape x)) i) (take (length (shape x)) (shape x @ replicate n 1))"
    by (rule list_all2_takeI)
  then show ?thesis
    by (simp add: indices_iff)
qed

lemma pad_elems:
  "i \<in> set (indices (shape (pad_shape_right_with_ones x n))) \<Longrightarrow>
   elems (pad_shape_right_with_ones x n) i = elems x (take (length (shape x)) i)"
  by (auto simp: pad_shape_right_with_ones_def indices_iff dest: list_all2_lengthD)

section \<open>The result of the kernel function\<close>

lemma bget_mk: "bget \<lparr>shape = s, elems = f\<rparr> i = f (bidx s i)"
  by (simp add: bget_def)

lemma bget_square: "bget (square t) i = (bget t i)\<^sup>2"
  by (simp add: bget_def square_def)

lemma bget_tf_exp: "bget (tf_exp t) i = exp (bget t i)"
  by (simp add: bget_def tf_exp_def)

lemma bget_scalar_mul: "bget (scalar_mul c t) i = c * bget t i"
  by (simp add: bget_def scalar_mul_def)

lemma shape_square [simp]: "shape (square t) = shape t"
  by (simp add: square_def)

lemma shape_tf_exp [simp]: "shape (tf_exp t) = shape t"
  by (simp add: tf_exp_def)

lemma shape_scalar_mul [simp]: "shape (scalar_mul c t) = shape t"
  by (simp add: scalar_mul_def)

lemma pad_zero [simp]: "pad_shape_right_with_ones x 0 = x"
  by (simp add: pad_shape_right_with_ones_def)

lemma broadcast_op_Inr:
  assumes "broadcast_op f a b = Inr r"
  shows "broadcast_shape (shape a) (shape b) = Some (shape r)"
    and "elems r = (\<lambda>i. f (bget a i) (bget b i))"
  using assms by (auto simp: broadcast_op_def split: option.splits)

lemma truediv_Inr:
  assumes "truediv a b = Inr r"
  shows "broadcast_shape (shape a) (shape b) = Some (shape r)"
    and "elems r = (\<lambda>i. bget a i / bget b i)"
    and "\<not> list_ex (\<lambda>i. bget b i = 0) (indices (shape r))"
  using assms
  by (auto simp: truediv_def rbind_def broadcast_op_def split: option.splits if_splits)

lemma apply_impl_InrD:
  assumes "apply_impl k x1 x2 p = Inr r"
  shows "\<exists>sd E. broadcast_shape (shape x1) (shape x2) = Some sd \<and>
           feature_ndims k \<le> length sd \<and>
           exponent_shape k p sd = Some E \<and> \<not> zero_divisor k p E \<and>
           result_shape k p sd = Some (shape r) \<and>
           (\<forall>i\<in>set (indices (shape r)). elems r i = spec_value k p x1 x2 sd i)"
proof -
  let ?n = "feature_ndims k"
  let ?c = "- (1 / 2) :: real"
  from assms obtain sdt s e where
    sdt: "squared_difference x1 x2 = Inr sdt" and
    s: "sum_rightmost_ndims_preserving_shape sdt ?n = Inr s" and
    e: "(case length_scale k of
           None \<Rightarrow> Inr (scalar_mul ?c s)
         | Some l \<Rightarrow> truediv (scalar_mul ?c s) (square (pad_shape_right_with_ones l p)))
        = Inr e" and
    r: "(case amplitude k of
           Some a \<Rightarrow> multiply (pad_shape_right_with_ones a p) (tf_exp e)
         | None \<Rightarrow> Inr (tf_exp e)) = Inr r"
    by (auto simp: apply_impl_def rbind_def Let_def split: sum.splits)
  from sdt obtain sd where
    sd: "broadcast_shape (shape x1) (shape x2) = Some sd" and
    sdt_shape: "shape sdt = sd" and
    sdt_elems: "elems sdt = (\<lambda>m. (bget x1 m - bget x2 m) * (bget x1 m - bget x2 m))"
    by (auto simp: squared_difference_def broadcast_op_def split: option.splits)
  let ?B = "batch_dims ?n sd"
  define S where "S = (\<lambda>i. \<Sum>j\<leftarrow>indices (feature_dims ?n sd).
                              (bget x1 (i @ j) - bget x2 (i @ j))\<^sup>2)"
  have dist: "sq_dist ?n sd x1 x2 i = S (bidx ?B i)" for i
    by (simp add: sq_dist_def S_def)
  from s sdt_shape sdt_elems have
    n: "?n \<le> length sd" and s_shape: "shape s = ?B" and s_elems: "elems s = S"
    by (auto simp: sum_rightmost_ndims_preserving_shape_def batch_dims_def feature_dims_def
        S_def power2_eq_square split: if_splits)
  have bget_s: "bget s i = S (bidx ?B i)" for i
    by (simp add: bget_def s_shape s_elems)
  show ?thesis
  proof (cases "length_scale k")
    case None
    with e have e_eq: "e = scalar_mul ?c s" by simp
    have e_shape: "shape e = ?B" by (simp add: e_eq scalar_mul_def s_shape)
    have es: "exponent_shape k p sd = Some ?B" by (simp add: exponent_shape_def None)
    have zd: "\<not> zero_divisor k p ?B" by (simp add: zero_divisor_def None)
    show ?thesis
    proof (cases "amplitude k")
      case a: None
      with r have r_eq: "r = tf_exp e" by simp
      have r_shape: "shape r = ?B" by (simp add: r_eq tf_exp_def e_shape)
      have "elems r i = spec_value k p x1 x2 sd i" if "i \<in> set (indices (shape r))" for i
      proof -
        from that have "bidx ?B i = i" by (simp add: r_shape bidx_id)
        then show ?thesis
          by (simp add: r_eq tf_exp_def e_eq scalar_mul_def s_elems spec_value_def None a dist)
      qed
      with sd n es zd show ?thesis
        by (auto simp: result_shape_def a r_shape)
    next
      case a: (Some amp)
      with r have m: "multiply (pad_shape_right_with_ones amp p) (tf_exp e) = Inr r" by simp
      from broadcast_op_Inr [OF m [unfolded multiply_def]] have
        r_shape: "broadcast_shape (shape (pad_shape_right_with_ones amp p)) ?B = Some (shape r)" and
        r_elems: "elems r = (\<lambda>i. bget (pad_shape_right_with_ones amp p) i * bget (tf_exp e) i)"
        by (simp_all add: tf_exp_def e_shape)
      have "elems r i = spec_value k p x1 x2 sd i" for i
        by (simp add: r_elems bget_tf_exp e_eq bget_scalar_mul bget_s spec_value_def None a dist)
      with sd n es zd r_shape show ?thesis
        by (auto simp: result_shape_def a)
    qed
  next
    case (Some l)
    let ?lp = "pad_shape_right_with_ones l p"
    from e Some have d: "truediv (scalar_mul ?c s) (square ?lp) = Inr e" by simp
    from truediv_Inr [OF d] have
      e_shape: "broadcast_shape ?B (shape ?lp) = Some (shape e)" and
      e_elems: "elems e = (\<lambda>i. ?c * S (bidx ?B i) / (bget ?lp i)\<^sup>2)" and
      nz: "\<not> list_ex (\<lambda>i. bget ?lp i = 0) (indices (shape e))"
      by (simp_all add: s_shape bget_scalar_mul bget_s bget_square)
    have es: "exponent_shape k p sd = Some (shape e)"
      by (simp add: exponent_shape_def Some e_shape)
    have zd: "\<not> zero_divisor k p (shape e)"
      using nz by (simp add: zero_divisor_def Some)
    show ?thesis
    proof (cases "amplitude k")
      case a: None
      with r have r_eq: "r = tf_exp e" by simp
      have r_shape: "shape r = shape e" by (simp add: r_eq tf_exp_def)
      have "elems r i = spec_value k p x1 x2 sd i" for i
        by (simp add: r_eq tf_exp_def e_elems spec_value_def Some a dist)
      with sd n es zd show ?thesis
        by (auto simp: result_shape_def a r_shape)
    next
      case a: (Some amp)
      with r have m: "multiply (pad_shape_right_with_ones amp p) (tf_exp e) = Inr r" by simp
      from broadcast_op_Inr [OF m [unfolded multiply_def]] have
        r_shape: "broadcast_shape (shape (pad_shape_right_with_ones amp p)) (shape e)
                  = Some (shape r)" and
        r_elems: "elems r = (\<lambda>i. bget (pad_shape_right_with_ones amp p) i * bget (tf_exp e) i)"
        by (simp_all add: tf_exp_def)
      have c1: "bidx ?B (bidx (shape e) i) = bidx ?B i" for i
        by (rule bidx_comp1 [OF e_shape])
      have c2: "bget ?lp (bidx (shape e) i) = bget ?lp i" for i
        by (rule bget_comp2 [OF e_shape])
      have "elems r i = spec_value k p x1 x2 sd i" for i
        by (simp add: r_elems bget_tf_exp bget_def [of e] e_elems c1 c2 spec_value_def Some a dist)
      with sd n es zd r_shape show ?thesis
        by (auto simp: result_shape_def a)
    qed
  qed
qed

lemma apply_impl_InrI:
  assumes "broadcast_shape (shape x1) (shape x2) = Some sd"
    and "feature_ndims k \<le> length sd"
    and "exponent_shape k p sd = Some E"
    and "\<not> zero_divisor k p E"
    and "result_shape k p sd = Some R"
  shows "\<exists>r. apply_impl k x1 x2 p = Inr r"
proof -
  let ?n = "feature_ndims k"
  let ?c = "- (1 / 2) :: real"
  from assms(1) obtain sdt where
    sdt: "squared_difference x1 x2 = Inr sdt" and sdt_shape: "shape sdt = sd"
    by (simp add: squared_difference_def broadcast_op_def)
  from assms(2) sdt_shape obtain s where
    s: "sum_rightmost_ndims_preserving_shape sdt ?n = Inr s" and
    s_shape: "shape s = batch_dims ?n sd"
    by (simp add: sum_rightmost_ndims_preserving_shape_def batch_dims_def)
  have "\<exists>e. (case length_scale k of
           None \<Rightarrow> Inr (scalar_mul ?c s)
         | Some l \<Rightarrow> truediv (scalar_mul ?c s) (square (pad_shape_right_with_ones l p)))
        = Inr e \<and> shape e = E"
  proof (cases "length_scale k")
    case None
    with assms(3) show ?thesis
      by (simp add: exponent_shape_def scalar_mul_def s_shape)
  next
    case (Some l)
    with assms(3) have
      "broadcast_shape (batch_dims ?n sd) (shape (pad_shape_right_with_ones l p)) = Some E"
      by (simp add: exponent_shape_def)
    moreover from assms(4) Some have
      "\<not> list_ex (\<lambda>i. bget (pad_shape_right_with_ones l p) i = 0) (indices E)"
      by (simp add: zero_divisor_def)
    ultimately show ?thesis
      by (simp add: Some truediv_def rbind_def broadcast_op_def scalar_mul_def square_def
          s_shape bget_def)
  qed
  then obtain e where
    e: "(case length_scale k of
           None \<Rightarrow> Inr (scalar_mul ?c s)
         | Some l \<Rightarrow> truediv (scalar_mul ?c s) (square (pad_shape_right_with_ones l p)))
        = Inr e" and e_shape: "shape e = E"
    by blast
  have "\<exists>r. (case amplitude k of
           Some a \<Rightarrow> multiply (pad_shape_right_with_ones a p) (tf_exp e)
         | None \<Rightarrow> Inr (tf_exp e)) = Inr r"
  proof (cases "amplitude k")
    case None
    then show ?thesis by simp
  next
    case (Some a)
    with assms(3,5) have "broadcast_shape (shape (pad_shape_right_with_ones a p)) E = Some R"
      by (simp add: result_shape_def)
    then show ?thesis
      by (simp add: Some multiply_def broadcast_op_def tf_exp_def e_shape)
  qed
  with sdt s e show ?thesis
    by (simp add: apply_impl_def rbind_def Let_def)
qed

lemma squared_difference_comm: "squared_difference x y = squared_difference y x"
proof -
  have "(\<lambda>i. (bget x i - bget y i) * (bget x i - bget y i))
      = (\<lambda>i. (bget y i - bget x i) * (bget y i - bget x i))"
    by (rule ext) (simp add: algebra_simps)
  then show ?thesis
    by (simp add: squared_difference_def broadcast_op_def broadcast_shape_comm [of "shape y"]
        split: option.splits)
qed


text \<open>
  Claim C5. Symmetry: exchanging the two inputs changes nothing, neither the result nor
  the failure.
\<close>

theorem apply_symmetric: "apply_impl k x y p = apply_impl k y x p"
  by (simp add: apply_impl_def squared_difference_comm [of x y])

section \<open>Where the parameters are read\<close>

lemma bget_pad_elem:
  assumes "i \<in> set (indices (shape (pad_shape_right_with_ones x p)))"
  shows "\<exists>j\<in>set (indices (shape x)). elems (pad_shape_right_with_ones x p) i = elems x j"
  using pad_valid [OF assms] pad_elems [OF assms] by blast

lemma amplitude_at:
  assumes "result_shape k p sd = Some R" and "amplitude k = Some a" and "i \<in> set (indices R)"
  shows "\<exists>j\<in>set (indices (shape a)). bget (pad_shape_right_with_ones a p) i = elems a j"
proof -
  let ?ap = "pad_shape_right_with_ones a p"
  from assms(1,2) obtain E where "broadcast_shape (shape ?ap) E = Some R"
    by (auto simp: result_shape_def split: option.splits)
  from bidx_valid1 [OF this assms(3)]
  have "bidx (shape ?ap) i \<in> set (indices (shape ?ap))" .
  from bget_pad_elem [OF this] show ?thesis
    by (simp add: bget_def)
qed

lemma length_scale_at:
  assumes "result_shape k p sd = Some R" and "length_scale k = Some l" and "i \<in> set (indices R)"
  shows "\<exists>j\<in>set (indices (shape l)). bget (pad_shape_right_with_ones l p) i = elems l j"
proof -
  let ?lp = "pad_shape_right_with_ones l p"
  from assms(1,2) obtain E where
    E: "broadcast_shape (batch_dims (feature_ndims k) sd) (shape ?lp) = Some E" and
    R: "(case amplitude k of None \<Rightarrow> Some E
         | Some a \<Rightarrow> broadcast_shape (shape (pad_shape_right_with_ones a p)) E) = Some R"
    by (auto simp: result_shape_def exponent_shape_def split: option.splits)
  have "bidx (shape ?lp) i \<in> set (indices (shape ?lp))"
  proof (cases "amplitude k")
    case None
    with R have "R = E" by simp
    with assms(3) have "i \<in> set (indices E)" by simp
    from bidx_valid2 [OF E this] show ?thesis .
  next
    case (Some a)
    with R have R': "broadcast_shape (shape (pad_shape_right_with_ones a p)) E = Some R"
      by simp
    from bidx_valid2 [OF R' assms(3)] have "bidx E i \<in> set (indices E)" .
    from bidx_valid2 [OF E this]
    have "bidx (shape ?lp) (bidx E i) \<in> set (indices (shape ?lp))" .
    then show ?thesis
      by (simp add: bidx_comp2 [OF E])
  qed
  from bget_pad_elem [OF this] show ?thesis
    by (simp add: bget_def)
qed

lemma no_zero_divisor:
  assumes "exponent_shape k p sd = Some E"
    and "\<And>l. length_scale k = Some l \<Longrightarrow> \<forall>j\<in>set (indices (shape l)). elems l j \<noteq> 0"
  shows "\<not> zero_divisor k p E"
proof (cases "length_scale k")
  case None
  then show ?thesis by (simp add: zero_divisor_def)
next
  case (Some l)
  let ?lp = "pad_shape_right_with_ones l p"
  from assms(1) Some have
    E: "broadcast_shape (batch_dims (feature_ndims k) sd) (shape ?lp) = Some E"
    by (simp add: exponent_shape_def)
  have "bget ?lp i \<noteq> 0" if "i \<in> set (indices E)" for i
  proof -
    from bidx_valid2 [OF E that]
    have "bidx (shape ?lp) i \<in> set (indices (shape ?lp))" .
    from bget_pad_elem [OF this] obtain j where
      "j \<in> set (indices (shape l))" and "bget ?lp i = elems l j"
      by (auto simp: bget_def)
    with assms(2) [OF Some] show ?thesis by simp
  qed
  then show ?thesis
    by (auto simp: zero_divisor_def Some list_ex_iff)
qed

lemma bdim_self [simp]: "bdim x x = Some x"
  by (simp add: bdim_def)

lemma bdim_one_left [simp]: "bdim (Suc 0) y = Some y"
  by (simp add: bdim_def)

lemma bdim_one_right [simp]: "bdim x (Suc 0) = Some x"
  by (simp add: bdim_def)

lemma bcast_rev_self: "bcast_rev s s = Some s"
  by (induction s) simp_all

lemma broadcast_shape_self: "broadcast_shape s s = Some s"
  by (simp add: broadcast_shape_def bcast_rev_self)

lemma sq_dist_self: "sq_dist n sd v v i = 0"
  by (simp add: sq_dist_def)

lemma sq_dist_nonneg: "0 \<le> sq_dist n sd x1 x2 i"
  by (auto simp: sq_dist_def intro!: sum_list_nonneg)

lemma spec_value_present:
  "amplitude k = Some a \<Longrightarrow> length_scale k = Some l \<Longrightarrow>
   spec_value k p x1 x2 sd i =
     bget (pad_shape_right_with_ones a p) i *
       exp (- (1 / 2) * sq_dist (feature_ndims k) sd x1 x2 i /
              (bget (pad_shape_right_with_ones l p) i)\<^sup>2)"
  by (simp add: spec_value_def Let_def)

section \<open>Self-similarity\<close>

text \<open>
  Claim C4, the input where it fails. With a length scale of zero (accepted by the
  constructor when \<open>validate_args\<close> is off) the exponent of equal inputs is zero divided by
  zero, and the result is not the amplitude.
\<close>

theorem self_similarity_fails_at_zero_length_scale:
  "init (Some (scalar 2)) (Some (scalar 0)) 1 False =
     Inr \<lparr>amplitude = Some (scalar 2), length_scale = Some (scalar 0), feature_ndims = 1\<rparr> \<and>
   kernel_apply
     \<lparr>amplitude = Some (scalar 2), length_scale = Some (scalar 0), feature_ndims = 1\<rparr>
     (vector [1, 2, 3]) (vector [1, 2, 3]) = Inl NonFinite"
  by (simp add: init_unchecked kernel_apply_def apply_impl_def rbind_def squared_difference_def
      broadcast_op_def broadcast_shape_def vector_def scalar_def
      sum_rightmost_ndims_preserving_shape_def truediv_def square_def scalar_mul_def
      bget_def bidx_def)

text \<open>
  Claim C4, as amended. For a kernel with amplitude and length scale present, the length
  scale without a zero element, and an input \<open>v\<close> of rank at least \<open>feature_ndims\<close> whose
  leading dimensions broadcast with the parameters, \<open>apply(v, v)\<close> returns a tensor, and
  each of its elements is the amplitude at that position (unsquared).
\<close>

theorem self_similarity:
  assumes amp: "amplitude k = Some a" and ls: "length_scale k = Some l"
    and nz: "\<forall>j\<in>set (indices (shape l)). elems l j \<noteq> 0"
    and rank: "feature_ndims k \<le> length (shape v)"
    and rs: "result_shape k 0 (shape v) = Some R"
  shows "\<exists>r. kernel_apply k v v = Inr r \<and> shape r = R \<and>
             (\<forall>i\<in>set (indices R). elems r i = bget a i)"
proof -
  have sd: "broadcast_shape (shape v) (shape v) = Some (shape v)"
    by (rule broadcast_shape_self)
  from rs obtain E where E: "exponent_shape k 0 (shape v) = Some E"
    by (auto simp: result_shape_def split: option.splits)
  have "\<not> zero_divisor k 0 E"
    using E nz ls by (intro no_zero_divisor) auto
  from apply_impl_InrI [OF sd rank E this rs] obtain r where
    res: "apply_impl k v v 0 = Inr r" ..
  from apply_impl_InrD [OF res] sd rs have
    shp: "shape r = R" and
    val: "\<forall>i\<in>set (indices (shape r)). elems r i = spec_value k 0 v v (shape v) i"
    by auto
  have "elems r i = bget a i" if "i \<in> set (indices R)" for i
    using val that shp by (simp add: spec_value_present [OF amp ls] sq_dist_self)
  with res shp show ?thesis
    by (auto simp: kernel_apply_def)
qed

theorem self_similarity_witness:
  "\<exists>r. kernel_apply
         \<lparr>amplitude = Some (scalar 2), length_scale = Some (scalar 1), feature_ndims = 1\<rparr>
         (vector [1, 2, 3]) (vector [1, 2, 3]) = Inr r \<and>
       shape r = [] \<and> (\<forall>i\<in>set (indices []). elems r i = bget (scalar 2) i)"
  using self_similarity
    [of "\<lparr>amplitude = Some (scalar 2), length_scale = Some (scalar 1), feature_ndims = 1\<rparr>"
        "scalar 2" "scalar 1" "vector [1, 2, 3]" "[]"]
  by (simp add: result_shape_def exponent_shape_def batch_dims_def broadcast_shape_def
      vector_def scalar_def)

section \<open>Range and decay\<close>

lemma neg_half_nonpos:
  fixes q :: real
  assumes "0 \<le> q"
  shows "- (1 / 2) * q \<le> 0"
  using assms by simp

lemma rbf_bounds:
  fixes A L S :: real
  assumes "0 < A" and "0 < L" and "0 \<le> S"
  shows "0 < A * exp (- (1 / 2) * S / L\<^sup>2) \<and> A * exp (- (1 / 2) * S / L\<^sup>2) \<le> A \<and>
         (A * exp (- (1 / 2) * S / L\<^sup>2) = A \<longleftrightarrow> S = 0)"
proof -
  define e where "e = - (1 / 2) * S / L\<^sup>2"
  have L2: "0 < L\<^sup>2" using assms(2) by simp
  have q: "0 \<le> S / L\<^sup>2" using assms(3) L2 by (rule divide_nonneg_pos)
  have "e = - (1 / 2) * (S / L\<^sup>2)" by (simp add: e_def)
  with neg_half_nonpos [OF q] have e_le: "e \<le> 0" by simp
  have e_eq: "e = 0 \<longleftrightarrow> S = 0" using assms(2) by (auto simp: e_def)
  have "0 < A * exp e" using assms(1) by simp
  moreover have "A * exp e \<le> A" using assms(1) e_le by simp
  moreover have "A * exp e = A \<longleftrightarrow> S = 0" using assms(1) e_eq by simp
  ultimately show ?thesis unfolding e_def by blast
qed

lemma rbf_decreasing:
  fixes A L S S' :: real
  assumes "0 < A" and "0 < L" and "S < S'"
  shows "A * exp (- (1 / 2) * S' / L\<^sup>2) < A * exp (- (1 / 2) * S / L\<^sup>2)"
proof -
  have L2: "0 < L\<^sup>2" using assms(2) by simp
  have "S / L\<^sup>2 < S' / L\<^sup>2" using assms(3) L2 by (rule divide_strict_right_mono)
  moreover have "- (1 / 2) * S' / L\<^sup>2 = - (S' / L\<^sup>2) / 2" by simp
  moreover have "- (1 / 2) * S / L\<^sup>2 = - (S / L\<^sup>2) / 2" by simp
  ultimately have "- (1 / 2) * S' / L\<^sup>2 < - (1 / 2) * S / L\<^sup>2" by linarith
  then have "exp (- (1 / 2) * S' / L\<^sup>2) < exp (- (1 / 2) * S / L\<^sup>2)"
    by (simp only: exp_less_cancel_iff)
  then show ?thesis using assms(1) by (simp only: mult_less_cancel_left_pos)
qed

text \<open>
  Claim C10. For a kernel whose amplitude and length scale are present and positive
  throughout, every element of a result of \<open>apply\<close> is positive and at most the amplitude at
  that position, and equals it exactly when the summed squared difference there is zero.
\<close>

theorem apply_bounded:
  assumes amp: "amplitude k = Some a" and ls: "length_scale k = Some l"
    and apos: "\<forall>j\<in>set (indices (shape a)). 0 < elems a j"
    and lpos: "\<forall>j\<in>set (indices (shape l)). 0 < elems l j"
    and res: "kernel_apply k x1 x2 = Inr r"
    and sd: "broadcast_shape (shape x1) (shape x2) = Some sd"
    and i: "i \<in> set (indices (shape r))"
  shows "0 < elems r i \<and> elems r i \<le> bget a i \<and>
         (elems r i = bget a i \<longleftrightarrow> sq_dist (feature_ndims k) sd x1 x2 i = 0)"
proof -
  from apply_impl_InrD [OF res [unfolded kernel_apply_def]] sd i have
    rs: "result_shape k 0 sd = Some (shape r)" and
    val: "elems r i = spec_value k 0 x1 x2 sd i"
    by auto
  from amplitude_at [OF rs amp i] apos have A: "0 < bget a i" by auto
  from length_scale_at [OF rs ls i] lpos have L: "0 < bget l i" by auto
  have S: "0 \<le> sq_dist (feature_ndims k) sd x1 x2 i" by (rule sq_dist_nonneg)
  have eq: "elems r i =
      bget a i * exp (- (1 / 2) * sq_dist (feature_ndims k) sd x1 x2 i / (bget l i)\<^sup>2)"
    using val by (simp add: spec_value_present [OF amp ls])
  show ?thesis
    unfolding eq by (rule rbf_bounds [OF A L S])
qed

text \<open>
  Claim C7. For a kernel whose amplitude and length scale are present and positive
  throughout, \<open>apply\<close> is strictly decreasing in the Euclidean distance of its two inputs:
  of two evaluations by the same kernel, the one whose inputs are farther apart at a
  position has the strictly smaller value there. Along a fixed direction the distance is
  all that changes, so the value strictly decreases as the inputs move apart.
\<close>

theorem apply_decreases_with_distance:
  assumes amp: "amplitude k = Some a" and ls: "length_scale k = Some l"
    and apos: "\<forall>j\<in>set (indices (shape a)). 0 < elems a j"
    and lpos: "\<forall>j\<in>set (indices (shape l)). 0 < elems l j"
    and res: "kernel_apply k x y = Inr r" and res': "kernel_apply k x' y' = Inr r'"
    and sd: "broadcast_shape (shape x) (shape y) = Some sd"
    and sd': "broadcast_shape (shape x') (shape y') = Some sd'"
    and i: "i \<in> set (indices (shape r))" and i': "i \<in> set (indices (shape r'))"
    and farther: "euclid_dist (feature_ndims k) sd x y i < euclid_dist (feature_ndims k) sd' x' y' i"
  shows "elems r' i < elems r i"
proof -
  from apply_impl_InrD [OF res [unfolded kernel_apply_def]] sd i have
    rs: "result_shape k 0 sd = Some (shape r)" and
    val: "elems r i = spec_value k 0 x y sd i"
    by auto
  from apply_impl_InrD [OF res' [unfolded kernel_apply_def]] sd' i' have
    val': "elems r' i = spec_value k 0 x' y' sd' i"
    by auto
  from amplitude_at [OF rs amp i] apos have A: "0 < bget a i" by auto
  from length_scale_at [OF rs ls i] lpos have L: "0 < bget l i" by auto
  from farther have
    S: "sq_dist (feature_ndims k) sd x y i < sq_dist (feature_ndims k) sd' x' y' i"
    by (simp add: euclid_dist_def)
  from rbf_decreasing [OF A L S] val val' show ?thesis
    by (simp add: spec_value_present [OF amp ls])
qed

section \<open>Translation invariance\<close>

lemma bget_shift:
  assumes "tf_add x c = Inr y" and "shape y = shape x"
  shows "bget y m = bget x m + bget c m"
proof -
  from broadcast_op_Inr [OF assms(1) [unfolded tf_add_def]] assms(2) have
    b: "broadcast_shape (shape x) (shape c) = Some (shape x)" and
    e: "elems y = (\<lambda>i. bget x i + bget c i)"
    by simp_all
  have 1: "bget y m = bget x (bidx (shape x) m) + bget c (bidx (shape x) m)"
    by (simp add: bget_def [of y] e assms(2))
  have 2: "bget x (bidx (shape x) m) = bget x m"
    by (simp add: bget_def bidx_idem)
  have 3: "bget c (bidx (shape x) m) = bget c m"
    by (rule bget_comp2 [OF b])
  show ?thesis
    by (simp only: 1 2 3)
qed

text \<open>
  Claim C9. Adding the same shift \<open>c\<close> to both inputs, where \<open>c\<close> broadcasts to the shape of
  each input (so that the sums have the shapes of the inputs), changes neither the result
  of \<^verbatim>\<open>_apply\<close> nor its failure.
\<close>

theorem apply_translation_invariant:
  assumes "tf_add x1 c = Inr y1" and "tf_add x2 c = Inr y2"
    and "shape y1 = shape x1" and "shape y2 = shape x2"
  shows "apply_impl k y1 y2 p = apply_impl k x1 x2 p"
proof -
  have "squared_difference y1 y2 = squared_difference x1 x2"
    by (simp add: squared_difference_def broadcast_op_def assms(3,4)
        bget_shift [OF assms(1,3)] bget_shift [OF assms(2,4)] split: option.splits)
  then show ?thesis
    by (simp add: apply_impl_def)
qed

theorem apply_translation_invariant_witness:
  "tf_add (vector [1, 2]) (vector [5, 5]) = Inr \<lparr>shape = [2], elems = (\<lambda>i. bget (vector [1, 2]) i + bget (vector [5, 5]) i)\<rparr> \<and>
   apply_impl \<lparr>amplitude = None, length_scale = None, feature_ndims = 1\<rparr>
     \<lparr>shape = [2], elems = (\<lambda>i. bget (vector [1, 2]) i + bget (vector [5, 5]) i)\<rparr>
     \<lparr>shape = [2], elems = (\<lambda>i. bget (vector [3, 4]) i + bget (vector [5, 5]) i)\<rparr> 0
   = apply_impl \<lparr>amplitude = None, length_scale = None, feature_ndims = 1\<rparr>
       (vector [1, 2]) (vector [3, 4]) 0"
proof -
  have 1: "tf_add (vector [1, 2]) (vector [5, 5]) =
      Inr \<lparr>shape = [2], elems = (\<lambda>i. bget (vector [1, 2]) i + bget (vector [5, 5]) i)\<rparr>"
    by (simp add: tf_add_def broadcast_op_def broadcast_shape_def vector_def)
  have 2: "tf_add (vector [3, 4]) (vector [5, 5]) =
      Inr \<lparr>shape = [2], elems = (\<lambda>i. bget (vector [3, 4]) i + bget (vector [5, 5]) i)\<rparr>"
    by (simp add: tf_add_def broadcast_op_def broadcast_shape_def vector_def)
  have 3: "shape \<lparr>shape = [2], elems = (\<lambda>i. bget (vector [1, 2]) i + bget (vector [5, 5]) i)\<rparr>
      = shape (vector [1, 2])"
    by (simp add: vector_def)
  have 4: "shape \<lparr>shape = [2], elems = (\<lambda>i. bget (vector [3, 4]) i + bget (vector [5, 5]) i)\<rparr>
      = shape (vector [3, 4])"
    by (simp add: vector_def)
  from 1 apply_translation_invariant [OF 1 2 3 4] show ?thesis
    by blast
qed

section \<open>Witnesses of the formula, the range and the decay\<close>

lemma apply_example:
  "\<exists>r. kernel_apply
         \<lparr>amplitude = Some (scalar 2), length_scale = Some (scalar 1), feature_ndims = 1\<rparr>
         (vector [a, b]) (vector [c, d]) = Inr r \<and> shape r = []"
  by (simp add: kernel_apply_def apply_impl_def rbind_def squared_difference_def
      broadcast_op_def broadcast_shape_def vector_def scalar_def multiply_def
      sum_rightmost_ndims_preserving_shape_def truediv_def square_def scalar_mul_def
      tf_exp_def bget_def bidx_def)

lemma sq_dist_example:
  "sq_dist (Suc 0) [2] (vector [a, b]) (vector [c, d]) [] = (a - c)\<^sup>2 + (b - d)\<^sup>2"
  by (simp add: sq_dist_def feature_dims_def batch_dims_def bget_def bidx_def vector_def
      numeral_2_eq_2)

lemma example_shapes:
  "broadcast_shape (shape (vector [a, b])) (shape (vector [c, d])) = Some [2]"
  by (simp add: broadcast_shape_def vector_def)


theorem apply_bounded_witness:
  "\<exists>r. kernel_apply
         \<lparr>amplitude = Some (scalar 2), length_scale = Some (scalar 1), feature_ndims = 1\<rparr>
         (vector [1, 2]) (vector [3, 4]) = Inr r \<and>
       0 < elems r [] \<and> elems r [] \<le> 2 \<and> elems r [] \<noteq> 2"
proof -
  let ?k = "\<lparr>amplitude = Some (scalar 2), length_scale = Some (scalar 1), feature_ndims = 1\<rparr>"
  let ?x1 = "vector [1, 2]" and ?x2 = "vector [3, 4]"
  from apply_example [of 1 2 3 4] obtain r where
    res: "kernel_apply ?k ?x1 ?x2 = Inr r" and shp: "shape r = []"
    by blast
  have amp: "amplitude ?k = Some (scalar 2)" and ls: "length_scale ?k = Some (scalar 1)"
    by simp_all
  have apos: "\<forall>j\<in>set (indices (shape (scalar 2))). 0 < elems (scalar 2) j"
    and lpos: "\<forall>j\<in>set (indices (shape (scalar 1))). 0 < elems (scalar 1) j"
    by (simp_all add: scalar_def)
  have i: "[] \<in> set (indices (shape r))" by (simp add: shp)
  from apply_bounded [OF amp ls apos lpos res example_shapes i]
  have "0 < elems r [] \<and> elems r [] \<le> 2 \<and> elems r [] \<noteq> 2"
    by (simp add: sq_dist_example bget_def bidx_def scalar_def)
  with res show ?thesis by blast
qed

theorem apply_decreases_with_distance_witness:
  "\<exists>r r'. kernel_apply
         \<lparr>amplitude = Some (scalar 2), length_scale = Some (scalar 1), feature_ndims = 1\<rparr>
         (vector [0, 0]) (vector [1, 0]) = Inr r \<and>
       kernel_apply
         \<lparr>amplitude = Some (scalar 2), length_scale = Some (scalar 1), feature_ndims = 1\<rparr>
         (vector [0, 0]) (vector [2, 0]) = Inr r' \<and>
       elems r' [] < elems r []"
proof -
  let ?k = "\<lparr>amplitude = Some (scalar 2), length_scale = Some (scalar 1), feature_ndims = 1\<rparr>"
  from apply_example [of 0 0 1 0] obtain r where
    res: "kernel_apply ?k (vector [0, 0]) (vector [1, 0]) = Inr r" and shp: "shape r = []"
    by blast
  from apply_example [of 0 0 2 0] obtain r' where
    res': "kernel_apply ?k (vector [0, 0]) (vector [2, 0]) = Inr r'" and shp': "shape r' = []"
    by blast
  have amp: "amplitude ?k = Some (scalar 2)" and ls: "length_scale ?k = Some (scalar 1)"
    by simp_all
  have apos: "\<forall>j\<in>set (indices (shape (scalar 2))). 0 < elems (scalar 2) j"
    and lpos: "\<forall>j\<in>set (indices (shape (scalar 1))). 0 < elems (scalar 1) j"
    by (simp_all add: scalar_def)
  have i: "[] \<in> set (indices (shape r))" and i': "[] \<in> set (indices (shape r'))"
    by (simp_all add: shp shp')
  have far: "euclid_dist (feature_ndims ?k) [2] (vector [0, 0]) (vector [1, 0]) []
      < euclid_dist (feature_ndims ?k) [2] (vector [0, 0]) (vector [2, 0]) []"
    by (simp add: euclid_dist_def sq_dist_example)
  from apply_decreases_with_distance
    [OF amp ls apos lpos res res' example_shapes example_shapes i i' far]
  have "elems r' [] < elems r []" .
  with res res' show ?thesis by blast
qed

section \<open>Absent parameters are identities\<close>

lemma rbind_Inl: "rbind (Inl e) f = Inl e"
  by (simp add: rbind_def)

lemma rbind_Inr: "rbind (Inr v) f = f v"
  by (simp add: rbind_def)

lemma apply_impl_stages:
  "apply_impl k x1 x2 p =
     rbind (exponent_of (length_scale k) (feature_ndims k) x1 x2 p) (scale_by (amplitude k) p)"
  by (auto simp: apply_impl_def exponent_of_def scale_by_def rbind_def Let_def
      split: sum.splits)

lemma kernel_apply_stages:
  "kernel_apply \<lparr>amplitude = a, length_scale = l, feature_ndims = n\<rparr> x1 x2 =
     rbind (exponent_of l n x1 x2 0) (scale_by a 0)"
  by (simp add: kernel_apply_def apply_impl_stages)

lemma shape_renorm [simp]: "shape (renorm t) = shape t"
  by (simp add: renorm_def)

lemma bget_renorm: "bget (renorm t) i = bget t i"
  by (simp add: renorm_def bget_def bidx_idem)

lemma tensor_eq_renorm: "tensor_eq t (renorm t)"
  by (simp add: tensor_eq_def list_all_iff renorm_def bget_def bidx_id)

lemma tensor_eq_exp_renorm: "tensor_eq (tf_exp t) (tf_exp (renorm t))"
  by (simp add: tensor_eq_def list_all_iff renorm_def tf_exp_def bget_def bidx_id)

lemma result_eq_refl: "result_eq r r"
  by (cases r) (simp_all add: result_eq_def tensor_eq_def list_all_iff)

lemma multiply_one: "multiply (scalar 1) t = Inr (renorm t)"
  by (simp add: multiply_def broadcast_op_def scalar_def broadcast_shape_Nil1 renorm_def
      bget_def)

lemma truediv_one: "truediv t (square (scalar 1)) = Inr (renorm t)"
  by (simp add: truediv_def rbind_def broadcast_op_def scalar_def square_def
      broadcast_shape_Nil2 renorm_def bget_def list_ex_iff)

lemma scale_by_one:
  "result_eq (rbind X (scale_by None 0)) (rbind X (scale_by (Some (scalar 1)) 0))"
  by (cases X)
    (simp_all add: rbind_def scale_by_def multiply_one result_eq_def tensor_eq_renorm)

lemma exponent_of_one:
  "exponent_of (Some (scalar 1)) n x1 x2 0 =
     (case exponent_of None n x1 x2 0 of Inl e \<Rightarrow> Inl e | Inr t \<Rightarrow> Inr (renorm t))"
  by (auto simp: exponent_of_def rbind_def truediv_one split: sum.splits)

lemma scale_by_renorm: "result_eq (scale_by amp 0 e) (scale_by amp 0 (renorm e))"
proof (cases amp)
  case None
  then show ?thesis
    by (simp add: scale_by_def result_eq_def tensor_eq_exp_renorm)
next
  case (Some a)
  have "multiply a (tf_exp (renorm e)) = multiply a (tf_exp e)"
    by (simp add: multiply_def broadcast_op_def bget_tf_exp bget_renorm split: option.splits)
  then show ?thesis
    by (simp add: scale_by_def Some result_eq_refl)
qed

lemma length_scale_one:
  "result_eq (rbind (exponent_of None n x1 x2 0) (scale_by amp 0))
             (rbind (exponent_of (Some (scalar 1)) n x1 x2 0) (scale_by amp 0))"
  by (cases "exponent_of None n x1 x2 0")
    (simp_all add: exponent_of_one rbind_def result_eq_def scale_by_renorm [unfolded result_eq_def])

lemma init_eq:
  "init amp ls n v =
     (if v \<and> (has_nonpositive amp \<or> has_nonpositive ls) then Inl ValidationError
      else Inr \<lparr>amplitude = amp, length_scale = ls, feature_ndims = n\<rparr>)"
proof (cases v)
  case False
  then show ?thesis by (simp add: init_unchecked)
next
  case v: True
  show ?thesis
  proof (cases "has_nonpositive amp")
    case True
    with v show ?thesis
      by (simp add: init_def validate_nonpositive rbind_def)
  next
    case a: False
    show ?thesis
    proof (cases "has_nonpositive ls")
      case True
      with v a show ?thesis
        by (simp add: init_def validate_nonpositive validate_positive rbind_def)
    next
      case False
      with v a show ?thesis
        by (simp add: init_def validate_positive rbind_def assert_same_float_dtype_def)
    qed
  qed
qed

lemma one_is_positive: "\<not> has_nonpositive (Some (scalar 1))"
  by (simp add: has_nonpositive_def scalar_def)

lemma none_is_positive: "\<not> has_nonpositive None"
  by (simp add: has_nonpositive_def)

text \<open>
  Claim C6. A kernel constructed without amplitude gives the same result of \<open>apply\<close> as
  one constructed with the scalar amplitude 1, and a kernel constructed without length
  scale the same as one with the scalar length scale 1, the other arguments being equal;
  a failure of one is the same failure of the other.
\<close>

theorem absent_parameter_identity:
  "result_eq (apply_constructed None ls n v x1 x2)
             (apply_constructed (Some (scalar 1)) ls n v x1 x2) \<and>
   result_eq (apply_constructed amp None n v x1 x2)
             (apply_constructed amp (Some (scalar 1)) n v x1 x2)"
proof
  show "result_eq (apply_constructed None ls n v x1 x2)
                  (apply_constructed (Some (scalar 1)) ls n v x1 x2)"
  proof (cases "v \<and> has_nonpositive ls")
    case True
    then show ?thesis
      by (simp add: apply_constructed_def init_eq rbind_def result_eq_def)
  next
    case False
    then have "apply_constructed None ls n v x1 x2 =
        rbind (exponent_of ls n x1 x2 0) (scale_by None 0)"
      and "apply_constructed (Some (scalar 1)) ls n v x1 x2 =
        rbind (exponent_of ls n x1 x2 0) (scale_by (Some (scalar 1)) 0)"
      by (auto simp: apply_constructed_def init_eq one_is_positive none_is_positive
          kernel_apply_stages rbind_Inr)
    then show ?thesis
      by (simp add: scale_by_one)
  qed
next
  show "result_eq (apply_constructed amp None n v x1 x2)
                  (apply_constructed amp (Some (scalar 1)) n v x1 x2)"
  proof (cases "v \<and> has_nonpositive amp")
    case True
    then show ?thesis
      by (simp add: apply_constructed_def init_eq rbind_def result_eq_def)
  next
    case False
    then have "apply_constructed amp None n v x1 x2 =
        rbind (exponent_of None n x1 x2 0) (scale_by amp 0)"
      and "apply_constructed amp (Some (scalar 1)) n v x1 x2 =
        rbind (exponent_of (Some (scalar 1)) n x1 x2 0) (scale_by amp 0)"
      by (auto simp: apply_constructed_def init_eq one_is_positive none_is_positive
          kernel_apply_stages rbind_Inr)
    then show ?thesis
      by (simp add: length_scale_one)
  qed
qed

theorem absent_parameter_identity_witness:
  "result_eq (apply_constructed None (Some (scalar 3)) 1 True (vector [1, 2]) (vector [3, 4]))
             (apply_constructed (Some (scalar 1)) (Some (scalar 3)) 1 True
                (vector [1, 2]) (vector [3, 4])) \<and>
   result_eq (apply_constructed (Some (scalar 2)) None 1 True (vector [1, 2]) (vector [3, 4]))
             (apply_constructed (Some (scalar 2)) (Some (scalar 1)) 1 True
                (vector [1, 2]) (vector [3, 4])) \<and>
   (\<exists>r. apply_constructed (Some (scalar 2)) (Some (scalar 1)) 1 True
          (vector [1, 2]) (vector [3, 4]) = Inr r \<and> shape r = [])"
proof -
  have "\<not> has_nonpositive (Some (scalar 2))"
    by (simp add: has_nonpositive_def scalar_def)
  then have "\<exists>r. apply_constructed (Some (scalar 2)) (Some (scalar 1)) 1 True
          (vector [1, 2]) (vector [3, 4]) = Inr r \<and> shape r = []"
    using apply_example [of 1 2 3 4]
    by (simp add: apply_constructed_def init_eq one_is_positive rbind_Inr)
  with absent_parameter_identity [of "Some (scalar 3)" 1 True "vector [1, 2]" "vector [3, 4]" "Some (scalar 2)"]
  show ?thesis by blast
qed

section \<open>The covariance matrix agrees with pairwise evaluation\<close>

lemma matrix_grid:
  assumes "feature_ndims k = 1" and "shape x1 = [m, D]" and "shape x2 = [n, D]"
  shows "matrix k x1 x2 = apply_impl k (grid1 x1 m D) (grid2 x2 n D) 2"
  by (simp add: matrix_def expand_dims_def rbind_def assms Let_def grid1_def grid2_def
      numeral_2_eq_2)

lemma grid_shapes:
  "broadcast_shape (shape (grid1 x1 m D)) (shape (grid2 x2 n D)) = Some [m, n, D]"
  by (simp add: broadcast_shape_def grid1_def grid2_def)

lemma row_shapes:
  assumes "shape x1 = [m, D]" and "shape x2 = [n, D]"
  shows "broadcast_shape (shape (row x1 i)) (shape (row x2 j)) = Some [D]"
  by (simp add: broadcast_shape_def row_def assms)

lemma pad_scalar_shape:
  "shape a = [] \<Longrightarrow> shape (pad_shape_right_with_ones a p) = replicate p 1"
  by (simp add: pad_shape_right_with_ones_def)

lemma pad_scalar_bget:
  "shape a = [] \<Longrightarrow> bget (pad_shape_right_with_ones a p) i = elems a []"
  by (simp add: pad_shape_right_with_ones_def bget_def bidx_Nil)

lemma broadcast_ones_right: "broadcast_shape [m, n] [Suc 0, Suc 0] = Some [m, n]"
  by (simp add: broadcast_shape_def)

lemma broadcast_ones_left: "broadcast_shape [Suc 0, Suc 0] [m, n] = Some [m, n]"
  by (simp add: broadcast_shape_def)

lemma grid_result_shapes:
  assumes "feature_ndims k = 1"
    and "scalar_or_absent (amplitude k)" and "scalar_or_absent (length_scale k)"
  shows "exponent_shape k 2 [m, n, D] = Some [m, n]"
    and "result_shape k 2 [m, n, D] = Some [m, n]"
  using assms
  by (auto simp: exponent_shape_def result_shape_def scalar_or_absent_def batch_dims_def
      pad_scalar_shape numeral_2_eq_2 broadcast_ones_right broadcast_ones_left
      split: option.splits)

lemma row_result_shapes:
  assumes "feature_ndims k = 1"
    and "scalar_or_absent (amplitude k)" and "scalar_or_absent (length_scale k)"
  shows "exponent_shape k 0 [D] = Some []"
    and "result_shape k 0 [D] = Some []"
  using assms
  by (auto simp: exponent_shape_def result_shape_def scalar_or_absent_def batch_dims_def
      broadcast_shape_Nil1 split: option.splits)

lemma zero_divisor_scalar:
  assumes "scalar_or_absent (length_scale k)"
  shows "zero_divisor k p E \<longleftrightarrow>
           (\<exists>i. i \<in> set (indices E)) \<and> (\<exists>l. length_scale k = Some l \<and> elems l [] = 0)"
  using assms
  by (auto simp: zero_divisor_def scalar_or_absent_def pad_scalar_bget list_ex_iff
      split: option.splits)

lemma spec_value_scalar:
  assumes "scalar_or_absent (amplitude k)" and "scalar_or_absent (length_scale k)"
  shows "spec_value k p x1 x2 sd i =
     (let S = sq_dist (feature_ndims k) sd x1 x2 i;
          e = (case length_scale k of
                 None \<Rightarrow> - (1 / 2) * S
               | Some l \<Rightarrow> - (1 / 2) * S / (elems l [])\<^sup>2)
      in case amplitude k of None \<Rightarrow> exp e | Some a \<Rightarrow> elems a [] * exp e)"
  using assms
  by (auto simp: spec_value_def scalar_or_absent_def pad_scalar_bget Let_def
      split: option.splits)

lemma indices_one: "d \<in> set (indices [D]) \<longleftrightarrow> (\<exists>e<D. d = [e])"
  by (auto simp: indices_iff list_all2_Cons2)

lemma grid1_bget:
  assumes "i < m" and "e < D"
  shows "bget (grid1 x m D) [i, j, e] = elems x [i, e]"
proof -
  from assms have "(if m = Suc 0 then 0 else i) = i" and "(if D = Suc 0 then 0 else e) = e"
    by auto
  then show ?thesis
    by (simp add: bget_def grid1_def bidx_def)
qed

lemma grid2_bget:
  assumes "j < n" and "e < D"
  shows "bget (grid2 x n D) [i, j, e] = elems x [j, e]"
proof -
  from assms have "(if n = Suc 0 then 0 else j) = j" and "(if D = Suc 0 then 0 else e) = e"
    by auto
  then show ?thesis
    by (simp add: bget_def grid2_def bidx_def)
qed

lemma row_bget:
  assumes "shape x = [m, D]" and "e < D"
  shows "bget (row x i) [e] = elems x [i, e]"
proof -
  from assms have "(if D = Suc 0 then 0 else e) = e"
    by auto
  then show ?thesis
    by (simp add: bget_def row_def bidx_def assms(1))
qed

lemma grid_sq_dist:
  assumes "shape x1 = [m, D]" and "shape x2 = [n, D]" and "i < m" and "j < n"
  shows "sq_dist (Suc 0) [m, n, D] (grid1 x1 m D) (grid2 x2 n D) [i, j]
       = sq_dist (Suc 0) [D] (row x1 i) (row x2 j) []"
proof -
  have "[i, j] \<in> set (indices [m, n])"
    using assms(3,4) unfolding indices_iff by simp
  then have b: "bidx [m, n] [i, j] = [i, j]"
    by (rule bidx_id)
  have "(bget (grid1 x1 m D) ([i, j] @ d) - bget (grid2 x2 n D) ([i, j] @ d))\<^sup>2
      = (bget (row x1 i) ([] @ d) - bget (row x2 j) ([] @ d))\<^sup>2"
    if "d \<in> set (indices [D])" for d
  proof -
    from that obtain e where e: "e < D" and d: "d = [e]"
      by (auto simp: indices_one)
    show ?thesis
      by (simp add: d grid1_bget [OF assms(3) e] grid2_bget [OF assms(4) e]
          row_bget [OF assms(1) e] row_bget [OF assms(2) e])
  qed
  then have "map (\<lambda>d. (bget (grid1 x1 m D) ([i, j] @ d) - bget (grid2 x2 n D) ([i, j] @ d))\<^sup>2)
               (indices [D])
           = map (\<lambda>d. (bget (row x1 i) ([] @ d) - bget (row x2 j) ([] @ d))\<^sup>2) (indices [D])"
    by (intro map_cong refl)
  moreover have "feature_dims (Suc 0) [m, n, D] = [D]" and "batch_dims (Suc 0) [m, n, D] = [m, n]"
    and "feature_dims (Suc 0) [D] = [D]" and "batch_dims (Suc 0) [D] = []"
    by (simp_all add: feature_dims_def batch_dims_def)
  ultimately show ?thesis
    by (simp only: sq_dist_def b bidx_Nil)
qed

text \<open>
  Claim C8. For a kernel with \<open>feature_ndims = 1\<close> whose parameters are scalars or absent,
  \<open>x1\<close> of shape \<open>[m, D]\<close> and \<open>x2\<close> of shape \<open>[n, D]\<close> (the claim has \<open>m = 5\<close>, \<open>n = 7\<close>): a result
  of \<open>matrix\<close> has shape \<open>[m, n]\<close>, and its entry at \<open>(i, j)\<close> is the value of \<open>apply\<close> on the
  examples \<open>x1[i]\<close> and \<open>x2[j]\<close>, which returns a scalar. And \<open>matrix\<close> does return a result
  when the length scale is absent or not zero.
\<close>

theorem matrix_agrees_with_apply:
  assumes nd: "feature_ndims k = 1" and s1: "shape x1 = [m, D]" and s2: "shape x2 = [n, D]"
    and pa: "scalar_or_absent (amplitude k)" and pl: "scalar_or_absent (length_scale k)"
  shows "(matrix k x1 x2 = Inr M \<longrightarrow>
           shape M = [m, n] \<and>
           (\<forall>i<m. \<forall>j<n. \<exists>r. kernel_apply k (row x1 i) (row x2 j) = Inr r \<and>
                              shape r = [] \<and> elems M [i, j] = elems r [])) \<and>
         ((\<forall>l. length_scale k = Some l \<longrightarrow> elems l [] \<noteq> 0) \<longrightarrow>
           (\<exists>M'. matrix k x1 x2 = Inr M'))"
proof (rule conjI; rule impI)
  assume M: "matrix k x1 x2 = Inr M"
  let ?g1 = "grid1 x1 m D" and ?g2 = "grid2 x2 n D"
  from M have res: "apply_impl k ?g1 ?g2 2 = Inr M"
    by (simp add: matrix_grid [OF nd s1 s2])
  from apply_impl_InrD [OF res] obtain E where
    E: "exponent_shape k 2 [m, n, D] = Some E" and
    zd: "\<not> zero_divisor k 2 E" and
    rs: "result_shape k 2 [m, n, D] = Some (shape M)" and
    val: "\<forall>i\<in>set (indices (shape M)). elems M i = spec_value k 2 ?g1 ?g2 [m, n, D] i"
    by (auto simp: grid_shapes)
  from rs have shp: "shape M = [m, n]"
    by (simp add: grid_result_shapes [OF nd pa pl])
  from E have E_eq: "E = [m, n]"
    by (simp add: grid_result_shapes [OF nd pa pl])
  have entry: "\<exists>r. kernel_apply k (row x1 i) (row x2 j) = Inr r \<and>
                   shape r = [] \<and> elems M [i, j] = elems r []"
    if i: "i < m" and j: "j < n" for i j
  proof -
    have ij: "[i, j] \<in> set (indices [m, n])"
      using i j unfolding indices_iff by simp
    then have "\<exists>i'. i' \<in> set (indices [m, n])"
      by blast
    with zd [unfolded E_eq zero_divisor_scalar [OF pl]]
    have "\<not> (\<exists>l. length_scale k = Some l \<and> elems l [] = 0)"
      by blast
    then have zd0: "\<not> zero_divisor k 0 []"
      unfolding zero_divisor_scalar [OF pl] by blast
    have n1: "feature_ndims k \<le> length [D]"
      by (simp add: nd)
    from apply_impl_InrI [OF row_shapes [OF s1 s2] n1
        row_result_shapes(1) [OF nd pa pl] zd0 row_result_shapes(2) [OF nd pa pl]]
    obtain r where r: "apply_impl k (row x1 i) (row x2 j) 0 = Inr r" ..
    from apply_impl_InrD [OF r] have
      rshp: "shape r = []" and
      rval: "\<forall>i'\<in>set (indices (shape r)).
               elems r i' = spec_value k 0 (row x1 i) (row x2 j) [D] i'"
      by (auto simp: row_shapes [OF s1 s2] row_result_shapes [OF nd pa pl])
    from rval rshp have "elems r [] = spec_value k 0 (row x1 i) (row x2 j) [D] []"
      by simp
    moreover from val [unfolded shp] ij
    have "elems M [i, j] = spec_value k 2 ?g1 ?g2 [m, n, D] [i, j]"
      by blast
    moreover have "spec_value k 2 ?g1 ?g2 [m, n, D] [i, j]
        = spec_value k 0 (row x1 i) (row x2 j) [D] []"
      by (simp add: spec_value_scalar [OF pa pl] nd grid_sq_dist [OF s1 s2 i j])
    ultimately have "elems M [i, j] = elems r []"
      by simp
    with r rshp show ?thesis
      by (auto simp: kernel_apply_def)
  qed
  from shp entry
  show "shape M = [m, n] \<and>
        (\<forall>i<m. \<forall>j<n. \<exists>r. kernel_apply k (row x1 i) (row x2 j) = Inr r \<and>
                           shape r = [] \<and> elems M [i, j] = elems r [])"
    by blast
next
  assume nz: "\<forall>l. length_scale k = Some l \<longrightarrow> elems l [] \<noteq> 0"
  then have zd: "\<not> zero_divisor k 2 [m, n]"
    unfolding zero_divisor_scalar [OF pl] by blast
  have n1: "feature_ndims k \<le> length [m, n, D]"
    by (simp add: nd)
  from apply_impl_InrI [OF grid_shapes n1
      grid_result_shapes(1) [OF nd pa pl] zd grid_result_shapes(2) [OF nd pa pl]]
  show "\<exists>M'. matrix k x1 x2 = Inr M'"
    by (simp add: matrix_grid [OF nd s1 s2])
qed

theorem matrix_agrees_with_apply_witness:
  "\<exists>M. matrix \<lparr>amplitude = Some (scalar 2), length_scale = Some (scalar 1), feature_ndims = 1\<rparr>
         (column 2) (column 3) = Inr M \<and>
       shape M = [2, 3] \<and>
       (\<forall>i<2. \<forall>j<3. \<exists>r.
          kernel_apply
            \<lparr>amplitude = Some (scalar 2), length_scale = Some (scalar 1), feature_ndims = 1\<rparr>
            (row (column 2) i) (row (column 3) j) = Inr r \<and>
          shape r = [] \<and> elems M [i, j] = elems r [])"
proof -
  let ?k = "\<lparr>amplitude = Some (scalar 2), length_scale = Some (scalar 1), feature_ndims = 1\<rparr>"
  have nd: "feature_ndims ?k = 1" by simp
  have s1: "shape (column 2) = [2, 1]" and s2: "shape (column 3) = [3, 1]"
    by (simp_all add: column_def)
  have pa: "scalar_or_absent (amplitude ?k)" and pl: "scalar_or_absent (length_scale ?k)"
    by (simp_all add: scalar_or_absent_def scalar_def)
  have nz: "\<forall>l. length_scale ?k = Some l \<longrightarrow> elems l [] \<noteq> 0"
    by (simp add: scalar_def)
  from matrix_agrees_with_apply [OF nd s1 s2 pa pl] nz
  obtain M where M: "matrix ?k (column 2) (column 3) = Inr M"
    by blast
  from matrix_agrees_with_apply [OF nd s1 s2 pa pl, of M] M show ?thesis
    by blast
qed

section \<open>The covariance matrix of a kernel with batched parameters\<close>

definition param_shape :: "tensor option \<Rightarrow> nat list" where
  "param_shape p = (case p of None \<Rightarrow> [] | Some t \<Rightarrow> shape t)"

lemma bcast_rev_length:
  "bcast_rev a b = Some r \<Longrightarrow> length r = max (length a) (length b)"
  by (induction a b arbitrary: r rule: bcast_rev.induct) (auto split: option.splits)

lemma broadcast_shape_length:
  "broadcast_shape a b = Some r \<Longrightarrow> length r = max (length a) (length b)"
  by (auto simp: broadcast_shape_def dest: bcast_rev_length)

lemma broadcast_append_ones:
  "broadcast_shape (A @ [Suc 0, Suc 0]) (L @ [m, n])
     = map_option (\<lambda>B. B @ [m, n]) (broadcast_shape A L)"
  by (cases "bcast_rev (rev A) (rev L)") (simp_all add: broadcast_shape_def)

lemma broadcast_pair_ones:
  "broadcast_shape [m, n] (L @ [Suc 0, Suc 0]) = Some (L @ [m, n])"
  by (simp add: broadcast_shape_def)

lemma broadcast_append_ones_Nil:
  "broadcast_shape (A @ [Suc 0, Suc 0]) [m, n]
     = map_option (\<lambda>B. B @ [m, n]) (broadcast_shape A [])"
  using broadcast_append_ones [of A "[]" m n] by simp

lemma pad2_shape: "shape (pad_shape_right_with_ones t 2) = shape t @ [Suc 0, Suc 0]"
  by (simp add: pad_shape_right_with_ones_def numeral_2_eq_2)

lemma batched_grid_shapes:
  assumes "feature_ndims k = 1"
    and "broadcast_shape (param_shape (amplitude k)) (param_shape (length_scale k)) = Some B"
  shows "exponent_shape k 2 [m, n, D] = Some (param_shape (length_scale k) @ [m, n])"
    and "result_shape k 2 [m, n, D] = Some (B @ [m, n])"
  using assms
  by (auto simp: exponent_shape_def result_shape_def param_shape_def batch_dims_def
      pad2_shape broadcast_pair_ones broadcast_append_ones broadcast_append_ones_Nil
      broadcast_shape_Nil1 broadcast_shape_Nil2 split: option.splits)

lemma batched_row_shapes:
  assumes "feature_ndims k = 1"
    and "broadcast_shape (param_shape (amplitude k)) (param_shape (length_scale k)) = Some B"
  shows "exponent_shape k 0 [D] = Some (param_shape (length_scale k))"
    and "result_shape k 0 [D] = Some B"
  using assms
  by (auto simp: exponent_shape_def result_shape_def param_shape_def batch_dims_def
      broadcast_shape_Nil1 split: option.splits)

lemma indices_append:
  "b \<in> set (indices B) \<Longrightarrow> c \<in> set (indices C) \<Longrightarrow> b @ c \<in> set (indices (B @ C))"
  unfolding indices_iff by (rule list_all2_appendI)

lemma indices_pair: "i < m \<Longrightarrow> j < n \<Longrightarrow> [i, j] \<in> set (indices [m, n])"
  unfolding indices_iff by simp

lemma indices_length: "b \<in> set (indices B) \<Longrightarrow> length b = length B"
  unfolding indices_iff by (rule list_all2_lengthD)

lemma bidx_pair_append: "bidx [m, n] (b @ [i, j]) = bidx [m, n] [i, j]"
  by (simp add: bidx_def)

lemma bidx_append_ones: "bidx (T @ [Suc 0, Suc 0]) (b @ [i, j]) = bidx T b @ [0, 0]"
  by (simp add: bidx_def)

lemma length_bidx_rev: "length (bidx_rev s i) = min (length s) (length i)"
  by (induction s i rule: bidx_rev.induct) auto

lemma length_bidx: "length (bidx s i) = min (length s) (length i)"
  by (simp add: bidx_def length_bidx_rev)

lemma bget_pad2:
  assumes "length (shape t) \<le> length b"
  shows "bget (pad_shape_right_with_ones t 2) (b @ [i, j]) = bget t b"
proof -
  have "length (bidx (shape t) b) = length (shape t)"
    using assms by (simp add: length_bidx)
  then have "take (length (shape t)) (bidx (shape t) b @ [0, 0]) = bidx (shape t) b"
    by simp
  then show ?thesis
    by (simp add: bget_def pad_shape_right_with_ones_def numeral_2_eq_2 bidx_append_ones)
qed

lemma batched_grid_sq_dist:
  assumes "shape x1 = [m, D]" and "shape x2 = [n, D]" and "i < m" and "j < n"
  shows "sq_dist (Suc 0) [m, n, D] (grid1 x1 m D) (grid2 x2 n D) (b @ [i, j])
       = sq_dist (Suc 0) [D] (row x1 i) (row x2 j) b"
proof -
  have fd: "feature_dims (Suc 0) [m, n, D] = [D]" "batch_dims (Suc 0) [m, n, D] = [m, n]"
    "feature_dims (Suc 0) [D] = [D]" "batch_dims (Suc 0) [D] = []"
    by (simp_all add: feature_dims_def batch_dims_def)
  have "sq_dist (Suc 0) [m, n, D] (grid1 x1 m D) (grid2 x2 n D) (b @ [i, j])
      = sq_dist (Suc 0) [m, n, D] (grid1 x1 m D) (grid2 x2 n D) [i, j]"
    by (simp only: sq_dist_def fd bidx_pair_append)
  moreover have "sq_dist (Suc 0) [D] (row x1 i) (row x2 j) b
      = sq_dist (Suc 0) [D] (row x1 i) (row x2 j) []"
    by (simp only: sq_dist_def fd bidx_Nil)
  ultimately show ?thesis
    by (simp only: grid_sq_dist [OF assms])
qed

lemma batched_zero_divisor:
  assumes "\<not> zero_divisor k 2 (param_shape (length_scale k) @ [m, n])"
    and "i < m" and "j < n"
  shows "\<not> zero_divisor k 0 (param_shape (length_scale k))"
proof (cases "length_scale k")
  case None
  then show ?thesis by (simp add: zero_divisor_def)
next
  case (Some l)
  have "bget l b \<noteq> 0" if b: "b \<in> set (indices (shape l))" for b
  proof -
    from indices_append [OF b indices_pair [OF assms(2,3)]]
    have "b @ [i, j] \<in> set (indices (shape l @ [m, n]))" .
    with assms(1) Some have "bget (pad_shape_right_with_ones l 2) (b @ [i, j]) \<noteq> 0"
      by (auto simp: zero_divisor_def param_shape_def list_ex_iff)
    moreover have "length (shape l) \<le> length b"
      using indices_length [OF b] by simp
    ultimately show ?thesis
      by (simp add: bget_pad2)
  qed
  then show ?thesis
    by (auto simp: zero_divisor_def Some param_shape_def list_ex_iff)
qed

lemma batched_spec_value:
  assumes "feature_ndims k = 1"
    and "shape x1 = [m, D]" and "shape x2 = [n, D]" and "i < m" and "j < n"
    and "length (param_shape (amplitude k)) \<le> length b"
    and "length (param_shape (length_scale k)) \<le> length b"
  shows "spec_value k 2 (grid1 x1 m D) (grid2 x2 n D) [m, n, D] (b @ [i, j])
       = spec_value k 0 (row x1 i) (row x2 j) [D] b"
  using assms(1,6,7)
  by (auto simp: spec_value_def Let_def param_shape_def bget_pad2
      batched_grid_sq_dist [OF assms(2-5)] split: option.splits)

text \<open>
  Claim C8, the kernel where it fails. With an amplitude of shape \<open>[3]\<close> and inputs of
  shapes \<open>[5, 1]\<close> and \<open>[7, 1]\<close> the result of \<open>matrix\<close> has shape \<open>[3, 5, 7]\<close>, not \<open>[5, 7]\<close>.
\<close>

theorem matrix_shape_with_batched_amplitude:
  "map_sum id shape
     (matrix \<lparr>amplitude = Some (vector [1, 2, 3]), length_scale = None, feature_ndims = 1\<rparr>
        (column 5) (column 7)) = Inr [3, 5, 7]"
  by (simp add: matrix_def expand_dims_def rbind_def column_def Let_def apply_impl_def
      squared_difference_def broadcast_op_def broadcast_shape_def
      sum_rightmost_ndims_preserving_shape_def scalar_mul_def tf_exp_def multiply_def
      pad_shape_right_with_ones_def vector_def numeral_2_eq_2)

text \<open>
  Claim C8, as amended. For a kernel with \<open>feature_ndims = 1\<close> whose parameter shapes
  (an absent parameter counting as shape \<open>()\<close>) broadcast to \<open>B\<close>, \<open>x1\<close> of shape \<open>[m, D]\<close>
  and \<open>x2\<close> of shape \<open>[n, D]\<close>: a result of \<open>matrix\<close> has shape \<open>B @ [m, n]\<close>, which is
  \<open>[m, n]\<close> for scalar or absent parameters, and its entry at \<open>(b, i, j)\<close> is the value at \<open>b\<close>
  of \<open>apply\<close> on the examples \<open>x1[i]\<close> and \<open>x2[j]\<close>, the parameters being padded on the right
  by the two axes of the grid of pairs. And \<open>matrix\<close> does return a result when no element
  of the length scale is zero.
\<close>

theorem matrix_entries_agree_with_apply:
  assumes nd: "feature_ndims k = 1" and s1: "shape x1 = [m, D]" and s2: "shape x2 = [n, D]"
    and bs: "broadcast_shape (param_shape (amplitude k)) (param_shape (length_scale k)) = Some B"
  shows "(matrix k x1 x2 = Inr M \<longrightarrow>
           shape M = B @ [m, n] \<and>
           (\<forall>i<m. \<forall>j<n. \<exists>r. kernel_apply k (row x1 i) (row x2 j) = Inr r \<and>
                              shape r = B \<and>
                              (\<forall>b\<in>set (indices B). elems M (b @ [i, j]) = elems r b))) \<and>
         ((\<forall>l. length_scale k = Some l \<longrightarrow> (\<forall>q\<in>set (indices (shape l)). elems l q \<noteq> 0)) \<longrightarrow>
           (\<exists>M'. matrix k x1 x2 = Inr M'))"
proof (rule conjI; rule impI)
  assume M: "matrix k x1 x2 = Inr M"
  let ?g1 = "grid1 x1 m D" and ?g2 = "grid2 x2 n D"
  let ?L = "param_shape (length_scale k)"
  from M have res: "apply_impl k ?g1 ?g2 2 = Inr M"
    by (simp add: matrix_grid [OF nd s1 s2])
  from apply_impl_InrD [OF res] obtain E where
    E: "exponent_shape k 2 [m, n, D] = Some E" and
    zd: "\<not> zero_divisor k 2 E" and
    rs: "result_shape k 2 [m, n, D] = Some (shape M)" and
    val: "\<forall>i\<in>set (indices (shape M)). elems M i = spec_value k 2 ?g1 ?g2 [m, n, D] i"
    by (auto simp: grid_shapes)
  from rs have shp: "shape M = B @ [m, n]"
    by (simp add: batched_grid_shapes [OF nd bs])
  from E have E_eq: "E = ?L @ [m, n]"
    by (simp add: batched_grid_shapes [OF nd bs])
  from broadcast_shape_length [OF bs] have
    lenA: "length (param_shape (amplitude k)) \<le> length B" and
    lenL: "length ?L \<le> length B"
    by simp_all
  have entry: "\<exists>r. kernel_apply k (row x1 i) (row x2 j) = Inr r \<and> shape r = B \<and>
                   (\<forall>b\<in>set (indices B). elems M (b @ [i, j]) = elems r b)"
    if i: "i < m" and j: "j < n" for i j
  proof -
    from batched_zero_divisor [OF zd [unfolded E_eq] i j]
    have zd0: "\<not> zero_divisor k 0 ?L" .
    have n1: "feature_ndims k \<le> length [D]"
      by (simp add: nd)
    from apply_impl_InrI [OF row_shapes [OF s1 s2] n1
        batched_row_shapes(1) [OF nd bs] zd0 batched_row_shapes(2) [OF nd bs]]
    obtain r where r: "apply_impl k (row x1 i) (row x2 j) 0 = Inr r" ..
    from apply_impl_InrD [OF r] have
      rshp: "shape r = B" and
      rval: "\<forall>b\<in>set (indices (shape r)).
               elems r b = spec_value k 0 (row x1 i) (row x2 j) [D] b"
      by (auto simp: row_shapes [OF s1 s2] batched_row_shapes [OF nd bs])
    have "elems M (b @ [i, j]) = elems r b" if b: "b \<in> set (indices B)" for b
    proof -
      from indices_append [OF b indices_pair [OF i j]]
      have "b @ [i, j] \<in> set (indices (B @ [m, n]))" .
      with val [unfolded shp]
      have "elems M (b @ [i, j]) = spec_value k 2 ?g1 ?g2 [m, n, D] (b @ [i, j])"
        by blast
      moreover from rval [unfolded rshp] b
      have "elems r b = spec_value k 0 (row x1 i) (row x2 j) [D] b"
        by blast
      moreover from indices_length [OF b] lenA lenL have
        "length (param_shape (amplitude k)) \<le> length b" and "length ?L \<le> length b"
        by simp_all
      from batched_spec_value [OF nd s1 s2 i j this]
      have "spec_value k 2 ?g1 ?g2 [m, n, D] (b @ [i, j])
          = spec_value k 0 (row x1 i) (row x2 j) [D] b" .
      ultimately show ?thesis
        by simp
    qed
    with r rshp show ?thesis
      by (auto simp: kernel_apply_def)
  qed
  from shp entry
  show "shape M = B @ [m, n] \<and>
        (\<forall>i<m. \<forall>j<n. \<exists>r. kernel_apply k (row x1 i) (row x2 j) = Inr r \<and> shape r = B \<and>
                           (\<forall>b\<in>set (indices B). elems M (b @ [i, j]) = elems r b))"
    by blast
next
  assume nz: "\<forall>l. length_scale k = Some l \<longrightarrow> (\<forall>q\<in>set (indices (shape l)). elems l q \<noteq> 0)"
  have "\<not> zero_divisor k 2 (param_shape (length_scale k) @ [m, n])"
    using nz by (intro no_zero_divisor [OF batched_grid_shapes(1) [OF nd bs]]) auto
  moreover have n1: "feature_ndims k \<le> length [m, n, D]"
    by (simp add: nd)
  ultimately show "\<exists>M'. matrix k x1 x2 = Inr M'"
    using apply_impl_InrI [OF grid_shapes n1
      batched_grid_shapes(1) [OF nd bs] _ batched_grid_shapes(2) [OF nd bs]]
    by (simp add: matrix_grid [OF nd s1 s2])
qed

theorem matrix_entries_agree_with_apply_witness:
  "\<exists>M. matrix
         \<lparr>amplitude = Some (vector [1, 2, 3]), length_scale = Some (scalar 1), feature_ndims = 1\<rparr>
         (column 2) (column 3) = Inr M \<and>
       shape M = [3, 2, 3] \<and>
       (\<forall>i<2. \<forall>j<3. \<exists>r.
          kernel_apply
            \<lparr>amplitude = Some (vector [1, 2, 3]), length_scale = Some (scalar 1),
               feature_ndims = 1\<rparr>
            (row (column 2) i) (row (column 3) j) = Inr r \<and>
          shape r = [3] \<and> (\<forall>b\<in>set (indices [3]). elems M (b @ [i, j]) = elems r b))"
proof -
  let ?k = "\<lparr>amplitude = Some (vector [1, 2, 3]), length_scale = Some (scalar 1),
              feature_ndims = 1\<rparr>"
  have nd: "feature_ndims ?k = 1" by simp
  have s1: "shape (column 2) = [2, 1]" and s2: "shape (column 3) = [3, 1]"
    by (simp_all add: column_def)
  have bs: "broadcast_shape (param_shape (amplitude ?k)) (param_shape (length_scale ?k))
      = Some [3]"
    by (simp add: param_shape_def vector_def scalar_def broadcast_shape_Nil2)
  have nz: "\<forall>l. length_scale ?k = Some l \<longrightarrow> (\<forall>q\<in>set (indices (shape l)). elems l q \<noteq> 0)"
    by (simp add: scalar_def)
  from matrix_entries_agree_with_apply [OF nd s1 s2 bs] nz
  obtain M where M: "matrix ?k (column 2) (column 3) = Inr M"
    by blast
  from matrix_entries_agree_with_apply [OF nd s1 s2 bs, of M] M show ?thesis
    by simp
qed


end
